theory Spec2Isabelle
  imports Main "HOL-Library.Product_Lexorder"
begin

section \<open>Excel Data Pool: data cleaning, applicant upsert and search\<close>

text \<open>
  A shallow embedding of \<^verbatim>\<open>src/main.py\<close> and \<^verbatim>\<open>src/database.py\<close>.
  A Python string is the list of its code points. The model covers the code points below
  256: a \<^typ>\<open>char\<close> is read as the code point of that number, and on these the predicates
  below are \<^verbatim>\<open>str.isdigit\<close>, \<^verbatim>\<open>str.isdecimal\<close>, \<^verbatim>\<open>str.isspace\<close> and \<^verbatim>\<open>str.lower\<close>
  of Python (superscript digits, NEL and the no-break space included).
  A spreadsheet cell that is missing or NaN (\<^verbatim>\<open>pd.isna\<close>) is \<^term>\<open>None\<close>;
  a present cell is \<^term>\<open>Some s\<close> with \<^term>\<open>s\<close> the text \<^verbatim>\<open>str(cell)\<close>.
  A calendar date is the triple (year, month, day), ordered lexicographically.
\<close>

subsection \<open>Characters and strings\<close>

text \<open>The decimal digits \<^verbatim>\<open>0\<close> to \<^verbatim>\<open>9\<close> (\<^verbatim>\<open>str.isdecimal\<close>, and \<^verbatim>\<open>\d\<close> of a pattern).\<close>

definition isdecimal :: "char \<Rightarrow> bool" where
  "isdecimal c = (48 \<le> (of_char c :: nat) \<and> (of_char c :: nat) \<le> 57)"

text \<open>
  \<^verbatim>\<open>str.isdigit\<close> also holds of the superscript digits U+00B2, U+00B3 and U+00B9.
\<close>

definition isdigit :: "char \<Rightarrow> bool" where
  "isdigit c = ((48 \<le> (of_char c :: nat) \<and> (of_char c :: nat) \<le> 57)
              \<or> (of_char c :: nat) = 178 \<or> (of_char c :: nat) = 179
              \<or> (of_char c :: nat) = 185)"

text \<open>
  \<^verbatim>\<open>str.isspace\<close>: tab to carriage return, the separators U+001C to U+001F, the space,
  NEL (U+0085) and the no-break space (U+00A0).
\<close>

definition isspace :: "char \<Rightarrow> bool" where
  "isspace c = ((9 \<le> (of_char c :: nat) \<and> (of_char c :: nat) \<le> 13)
              \<or> (28 \<le> (of_char c :: nat) \<and> (of_char c :: nat) \<le> 32)
              \<or> (of_char c :: nat) = 133 \<or> (of_char c :: nat) = 160)"

definition strip :: "string \<Rightarrow> string" where
  "strip s = rev (dropWhile isspace (rev (dropWhile isspace s)))"

text \<open>
  \<^verbatim>\<open>str.lower\<close>: the capital letters are A to Z, U+00C0 to U+00D6 and U+00D8 to U+00DE; the
  small letter of each is 32 code points further.
\<close>

definition lower_char :: "char \<Rightarrow> char" where
  "lower_char c = (if (65 \<le> (of_char c :: nat) \<and> (of_char c :: nat) \<le> 90)
                      \<or> (192 \<le> (of_char c :: nat) \<and> (of_char c :: nat) \<le> 214)
                      \<or> (216 \<le> (of_char c :: nat) \<and> (of_char c :: nat) \<le> 222)
                   then char_of ((of_char c :: nat) + 32) else c)"

definition lower :: "string \<Rightarrow> string" where
  "lower s = map lower_char s"

definition startswith :: "string \<Rightarrow> string \<Rightarrow> bool" where
  "startswith s p = (take (length p) s = p)"

subsection \<open>Data Cleaner (main.py, lines 33--57)\<close>

definition clean_phone :: "string option \<Rightarrow> string" where
  "clean_phone phone =
     (case phone of
        None \<Rightarrow> []
      | Some p \<Rightarrow>
          (let phone_str = strip p;
               digits = filter isdigit phone_str
           in if startswith digits ''0'' \<and> length digits = 10 then ''+251'' @ drop 1 digits
              else if startswith digits ''251'' \<and> length digits = 12 then ''+'' @ digits
              else if startswith digits ''9'' \<and> length digits = 9 then ''+251'' @ digits
              else phone_str))"

definition clean_text :: "string option \<Rightarrow> string" where
  "clean_text t = (case t of None \<Rightarrow> [] | Some s \<Rightarrow> strip s)"


subsection \<open>Tables (database.py)\<close>

type_synonym date = "nat \<times> nat \<times> nat"

text \<open>
  The primary keys \<^verbatim>\<open>Applicant.id\<close> and \<^verbatim>\<open>Application.id\<close> are the fields
  \<open>a_id\<close> and \<open>app_id\<close>. A table is the list of its rows in insertion (rowid) order.
\<close>

record applicant =
  a_id :: nat
  full_name :: string
  phone :: string
  labor_id :: string

record application =
  app_id :: nat
  applicant_id :: nat
  position :: string
  application_date :: date
  source_file :: string

record database =
  applicants :: "applicant list"
  applications :: "application list"

text \<open>
  The value the row loop takes for an application date: a date, or the \<^verbatim>\<open>NaT\<close> of pandas,
  which \<^verbatim>\<open>pd.to_datetime(v).date()\<close> returns without raising for a cell such as the text
  \<^verbatim>\<open>NaT\<close>. A stored application always has a date: the flush refuses \<^verbatim>\<open>NaT\<close>.
\<close>

datatype app_date = Date date | NaT

text \<open>
  A session (\<^verbatim>\<open>SessionLocal()\<close>, with \<^verbatim>\<open>autoflush=False\<close>) is the committed content
  of the store together with the \<^verbatim>\<open>Application\<close> objects that were handed to
  \<^verbatim>\<open>db.add\<close> and are not flushed yet (applicant, position, date, source file). Queries read
  the store only.
\<close>

record session =
  store :: database
  pending :: "(nat \<times> string \<times> app_date \<times> string) list"

datatype exn = IntegrityError | ValueError

datatype detail = Database_error exn | No_applicants_found

datatype error = HTTPException nat detail | Uncaught exn

text \<open>The integer primary key of a new row: one more than the largest key in the table.\<close>

definition next_id :: "nat list \<Rightarrow> nat" where
  "next_id ids = fold max ids 0 + 1"

text \<open>
  The INSERT of the pending applications, in the order they were added. The date column
  cannot bind \<^verbatim>\<open>NaT\<close>: the statement raises (a \<^verbatim>\<open>ValueError\<close> from the conversion of the
  date) and nothing is inserted.
\<close>

fun insert_applications ::
  "application list \<Rightarrow> (nat \<times> string \<times> app_date \<times> string) list
     \<Rightarrow> exn + application list" where
  "insert_applications apps [] = Inr apps"
| "insert_applications apps ((aid, pos, NaT, f) # ps) = Inl ValueError"
| "insert_applications apps ((aid, pos, Date d, f) # ps) =
     insert_applications
       (apps @ [\<lparr>app_id = next_id (map app_id apps), applicant_id = aid, position = pos,
                 application_date = d, source_file = f\<rparr>]) ps"

text \<open>
  \<^verbatim>\<open>db.commit()\<close>: flush the pending objects and make the transaction durable. When the flush
  raises, the transaction is rolled back: the store keeps its committed content.
\<close>

definition commit :: "session \<Rightarrow> exn + session" where
  "commit s =
     (case insert_applications (applications (store s)) (pending s) of
        Inl e \<Rightarrow> Inl e
      | Inr apps \<Rightarrow> Inr \<lparr>store = (store s)\<lparr>applications := apps\<rparr>, pending = []\<rparr>)"

text \<open>\<^verbatim>\<open>db.rollback()\<close>: drop what is not committed.\<close>

definition rollback :: "session \<Rightarrow> session" where
  "rollback s = s\<lparr>pending := []\<rparr>"

text \<open>
  \<^verbatim>\<open>db.add(applicant); db.commit(); db.refresh(applicant)\<close> (lines 141--148). The flush
  inserts the applicant first: the INSERT is refused by the \<^verbatim>\<open>unique=True\<close> index on
  \<^verbatim>\<open>applicants.phone\<close> when a stored applicant already has this phone value. Then it
  inserts the pending applications. When either raises, nothing of the flush is kept;
  otherwise the applicant and the pending applications are committed.
\<close>

definition add_applicant_commit ::
  "session \<Rightarrow> string \<Rightarrow> string \<Rightarrow> string \<Rightarrow> exn + (session \<times> applicant)" where
  "add_applicant_commit s nm ph lid =
     (if ph \<in> set (map phone (applicants (store s))) then Inl IntegrityError
      else
        (let a = \<lparr>a_id = next_id (map a_id (applicants (store s))), full_name = nm,
                  phone = ph, labor_id = lid\<rparr>
         in case commit (s\<lparr>store := (store s)\<lparr>applicants := applicants (store s) @ [a]\<rparr>\<rparr>) of
              Inl e \<Rightarrow> Inl e
            | Inr s' \<Rightarrow> Inr (s', a)))"

subsection \<open>Applicant Directory (main.py, lines 124--149)\<close>

definition query_phone :: "session \<Rightarrow> string \<Rightarrow> applicant option" where
  "query_phone s ph = find (\<lambda>a. phone a = ph) (applicants (store s))"

definition query_labor_id :: "session \<Rightarrow> string \<Rightarrow> applicant option" where
  "query_labor_id s lid = find (\<lambda>a. labor_id a = lid) (applicants (store s))"

text \<open>
  Find or create the applicant of a row. The result carries the session, the applicant and
  whether it was created.
\<close>

definition resolve_or_create ::
  "session \<Rightarrow> string \<Rightarrow> string \<Rightarrow> string \<Rightarrow> exn + (session \<times> applicant \<times> bool)" where
  "resolve_or_create s ph lid nm =
     (let found = (if ph \<noteq> [] then query_phone s ph else None);
          found = (if found = None \<and> lid \<noteq> [] then query_labor_id s lid else found)
      in case found of
           Some a \<Rightarrow> Inr (s, a, False)
         | None \<Rightarrow>
             (case add_applicant_commit s nm ph lid of
                Inl e \<Rightarrow> Inl e
              | Inr (s', a) \<Rightarrow> Inr (s', a, True)))"

subsection \<open>Upload (main.py, lines 99--174)\<close>

text \<open>
  A row of the data frame, by column. \<open>DATE_COL\<close> is \<^term>\<open>None\<close> when the cell is
  missing or \<^verbatim>\<open>pd.to_datetime(cell).date()\<close> raises (both give \<^verbatim>\<open>date.today()\<close>), and
  otherwise \<^term>\<open>Some v\<close> with \<^term>\<open>v\<close> the value of that conversion: a date, or \<^verbatim>\<open>NaT\<close>.
\<close>

record row =
  POSITION_COL :: "string option"
  DATE_COL :: "app_date option"
  PHONE_COL :: "string option"
  LABOR_ID_COL :: "string option"
  NAME_COL :: "string option"

record stats =
  new_applicants :: nat
  existing_applicants :: nat
  applications_added :: nat

definition stats0 :: stats where
  "stats0 = \<lparr>new_applicants = 0, existing_applicants = 0, applications_added = 0\<rparr>"

text \<open>The body of the row loop (lines 108--159).\<close>

definition process_row ::
  "date \<Rightarrow> string \<Rightarrow> session \<Rightarrow> stats \<Rightarrow> row \<Rightarrow> exn + (session \<times> stats)" where
  "process_row today filename s st r =
     (let ph = clean_phone (PHONE_COL r);
          lid = clean_text (LABOR_ID_COL r);
          nm = clean_text (NAME_COL r);
          pos = lower (clean_text (POSITION_COL r));
          app_date = (case DATE_COL r of None \<Rightarrow> Date today | Some d \<Rightarrow> d)
      in case resolve_or_create s ph lid nm of
           Inl e \<Rightarrow> Inl e
         | Inr (s', a, created) \<Rightarrow>
             Inr (s'\<lparr>pending := pending s' @ [(a_id a, pos, app_date, filename)]\<rparr>,
                  (if created then st\<lparr>new_applicants := new_applicants st + 1\<rparr>
                   else st\<lparr>existing_applicants := existing_applicants st + 1\<rparr>)
                    \<lparr>applications_added := applications_added st + 1\<rparr>))"

text \<open>
  The loop over the rows. The session is returned in both cases: when a row raises, it is
  the session as the exception left it.
\<close>

fun row_loop ::
  "date \<Rightarrow> string \<Rightarrow> session \<Rightarrow> stats \<Rightarrow> row list \<Rightarrow> (exn + stats) \<times> session" where
  "row_loop today filename s st [] = (Inr st, s)"
| "row_loop today filename s st (r # rs) =
     (case process_row today filename s st r of
        Inl e \<Rightarrow> (Inl e, s)
      | Inr (s', st') \<Rightarrow> row_loop today filename s' st' rs)"

text \<open>
  The request, from the opening of the session on: the rows are processed and the final
  \<^verbatim>\<open>db.commit()\<close> runs; when both succeed the statistics are returned, and when a row or
  the final commit raises, the handler rolls the session back and raises
  \<^verbatim>\<open>HTTPException(500, "Database error: ...")\<close>. The second component is the content of the
  store when the request is over.
\<close>

definition upload_excel ::
  "date \<Rightarrow> string \<Rightarrow> database \<Rightarrow> row list \<Rightarrow> (error + stats) \<times> database" where
  "upload_excel today filename db rows =
     (case row_loop today filename \<lparr>store = db, pending = []\<rparr> stats0 rows of
        (Inr st, s) \<Rightarrow>
          (case commit s of
             Inr s' \<Rightarrow> (Inr st, store s')
           | Inl e \<Rightarrow> (Inl (HTTPException 500 (Database_error e)), store (rollback s)))
      | (Inl e, s) \<Rightarrow> (Inl (HTTPException 500 (Database_error e)), store (rollback s)))"

subsection \<open>Search (main.py, lines 176--270)\<close>

text \<open>
  \<^verbatim>\<open>Application.position.contains(x)\<close> is the SQL condition
  \<^verbatim>\<open>position LIKE '%' || x || '%'\<close>. In the pattern \<^verbatim>\<open>%\<close> stands for any run of
  characters and \<^verbatim>\<open>_\<close> for any one character; SQLite compares the letters A to Z, and
  no others, without regard to case.
\<close>

definition like_fold :: "char \<Rightarrow> char" where
  "like_fold c = (if 65 \<le> (of_char c :: nat) \<and> (of_char c :: nat) \<le> 90
                  then char_of ((of_char c :: nat) + 32) else c)"

fun sql_like :: "string \<Rightarrow> string \<Rightarrow> bool" where
  "sql_like [] s = (s = [])"
| "sql_like (p # ps) s =
     (if p = CHR ''%'' then
        (sql_like ps s \<or> (case s of [] \<Rightarrow> False | c # t \<Rightarrow> sql_like (p # ps) t))
      else
        (case s of
           [] \<Rightarrow> False
         | c # t \<Rightarrow> (p = CHR ''_'' \<or> like_fold p = like_fold c) \<and> sql_like ps t))"

definition contains :: "string \<Rightarrow> string \<Rightarrow> bool" where
  "contains col other = sql_like (''%'' @ other @ ''%'') col"

text \<open>
  \<^verbatim>\<open>datetime.strptime(s, "%Y-%m-%d").date()\<close>: four digits of year, a month written
  \<^verbatim>\<open>1[0-2]|0[1-9]|[1-9]\<close>, a day written \<^verbatim>\<open>3[0-1]|[1-2]\d|0[1-9]|[1-9]| [1-9]\<close>, nothing
  after it, and a date of the calendar. \<^term>\<open>None\<close> is the \<^verbatim>\<open>ValueError\<close>.
\<close>

definition digit_val :: "char \<Rightarrow> nat" where
  "digit_val c = (of_char c :: nat) - 48"

definition nonzero_digit :: "char \<Rightarrow> bool" where
  "nonzero_digit c = (isdecimal c \<and> c \<noteq> CHR ''0'')"

fun month_field :: "string \<Rightarrow> (nat \<times> string) option" where
  "month_field [] = None"
| "month_field [a] = (if nonzero_digit a then Some (digit_val a, []) else None)"
| "month_field (a # b # r) =
     (if a = CHR ''1'' \<and> (b = CHR ''0'' \<or> b = CHR ''1'' \<or> b = CHR ''2'')
        then Some (10 + digit_val b, r)
      else if a = CHR ''0'' \<and> nonzero_digit b then Some (digit_val b, r)
      else if nonzero_digit a then Some (digit_val a, b # r)
      else None)"

fun day_field :: "string \<Rightarrow> nat option" where
  "day_field [a] = (if nonzero_digit a then Some (digit_val a) else None)"
| "day_field [a, b] =
     (if a = CHR ''3'' \<and> (b = CHR ''0'' \<or> b = CHR ''1'') then Some (30 + digit_val b)
      else if (a = CHR ''1'' \<or> a = CHR ''2'') \<and> isdecimal b
        then Some (10 * digit_val a + digit_val b)
      else if (a = CHR ''0'' \<or> a = CHR '' '') \<and> nonzero_digit b then Some (digit_val b)
      else None)"
| "day_field s = None"

definition days_in_month :: "nat \<Rightarrow> nat \<Rightarrow> nat" where
  "days_in_month y m =
     (if m = 2 then (if y mod 4 = 0 \<and> (y mod 100 \<noteq> 0 \<or> y mod 400 = 0) then 29 else 28)
      else if m = 4 \<or> m = 6 \<or> m = 9 \<or> m = 11 then 30 else 31)"

definition strptime_ymd :: "string \<Rightarrow> date option" where
  "strptime_ymd s =
     (case s of
        y1 # y2 # y3 # y4 # dash # rest \<Rightarrow>
          (if isdecimal y1 \<and> isdecimal y2 \<and> isdecimal y3 \<and> isdecimal y4
              \<and> dash = CHR ''-'' then
             (case month_field rest of
                Some (m, dash' # rest') \<Rightarrow>
                  (if dash' = CHR ''-'' then
                     (case day_field rest' of
                        Some d \<Rightarrow>
                          (let y = 1000 * digit_val y1 + 100 * digit_val y2
                                   + 10 * digit_val y3 + digit_val y4
                           in if 1 \<le> y \<and> d \<le> days_in_month y m then Some (y, m, d)
                              else None)
                      | None \<Rightarrow> None)
                   else None)
              | _ \<Rightarrow> None)
           else None)
      | _ \<Rightarrow> None)"

text \<open>
  A date bound of the form (lines 196--197 and 200--201): an absent or empty field gives no
  bound, a field that does not parse raises.
\<close>

definition parse_bound :: "string option \<Rightarrow> exn + date option" where
  "parse_bound field =
     (case field of
        None \<Rightarrow> Inr None
      | Some s \<Rightarrow>
          (if s = [] then Inr None
           else (case strptime_ymd s of None \<Rightarrow> Inl ValueError | Some d \<Rightarrow> Inr (Some d))))"

text \<open>\<^verbatim>\<open>db.query(Application, Applicant).join(Applicant)\<close>: the inner join on the foreign key.\<close>

definition join_applicant :: "database \<Rightarrow> (application \<times> applicant) list" where
  "join_applicant db =
     concat (map (\<lambda>app. map (\<lambda>a. (app, a))
                    (filter (\<lambda>a. a_id a = applicant_id app) (applicants db)))
               (applications db))"

text \<open>
  \<^verbatim>\<open>order_by(Application.application_date.desc())\<close>. SQL leaves the order of rows with
  equal dates open; here they come out in the reverse of the join's order.
\<close>

definition order_by_date_desc ::
  "(application \<times> applicant) list \<Rightarrow> (application \<times> applicant) list" where
  "order_by_date_desc rows = rev (sort_key (\<lambda>r. application_date (fst r)) rows)"

definition applicant_key :: "applicant \<Rightarrow> string" where
  "applicant_key a =
     (if phone a \<noteq> [] then phone a else if labor_id a \<noteq> [] then labor_id a else full_name a)"

text \<open>The unique-only loop (lines 209--216), with the set of keys seen so far.\<close>

fun unique_loop ::
  "string set \<Rightarrow> (application \<times> applicant) list \<Rightarrow> (application \<times> applicant) list" where
  "unique_loop seen_applicants [] = []"
| "unique_loop seen_applicants ((app, a) # rest) =
     (if applicant_key a \<notin> seen_applicants
      then (app, a) # unique_loop (insert (applicant_key a) seen_applicants) rest
      else unique_loop seen_applicants rest)"

text \<open>The query and the unique-only collapse (lines 188--216): the value of \<^verbatim>\<open>results\<close>.\<close>

definition search_results ::
  "database \<Rightarrow> string \<Rightarrow> string option \<Rightarrow> string option \<Rightarrow> bool
     \<Rightarrow> exn + (application \<times> applicant) list" where
  "search_results db position_q start_date end_date unique_only =
     (let position_lower = strip (lower position_q);
          query = filter (\<lambda>r. contains (position (fst r)) position_lower) (join_applicant db)
      in case parse_bound start_date of
           Inl e \<Rightarrow> Inl e
         | Inr start \<Rightarrow>
             (let query = (case start of
                             None \<Rightarrow> query
                           | Some sd \<Rightarrow> filter (\<lambda>r. application_date (fst r) \<ge> sd) query)
              in case parse_bound end_date of
                   Inl e \<Rightarrow> Inl e
                 | Inr end_d \<Rightarrow>
                     (let query = (case end_d of
                                     None \<Rightarrow> query
                                   | Some ed \<Rightarrow>
                                       filter (\<lambda>r. application_date (fst r) \<le> ed) query);
                          results = order_by_date_desc query
                      in Inr (if unique_only then unique_loop {} results else results))))"

text \<open>The rows of the answer, in both output formats (lines 222--229 and 241--248).\<close>

record out_record =
  out_full_name :: string
  out_phone :: string
  out_labor_id :: string
  out_position :: string
  out_application_date :: date
  out_source_file :: string

definition to_record :: "application \<times> applicant \<Rightarrow> out_record" where
  "to_record r =
     \<lparr>out_full_name = full_name (snd r), out_phone = phone (snd r),
      out_labor_id = labor_id (snd r), out_position = position (fst r),
      out_application_date = application_date (fst r), out_source_file = source_file (fst r)\<rparr>"

datatype response = JSONResponse nat "out_record list" | FileResponse "out_record list"

text \<open>
  The request. An exception that no handler of the function catches leaves it as it is
  (\<^term>\<open>Uncaught\<close>); the search writes nothing to the store.
\<close>

definition search_applicants ::
  "database \<Rightarrow> string \<Rightarrow> string option \<Rightarrow> string option \<Rightarrow> bool \<Rightarrow> string
     \<Rightarrow> error + response" where
  "search_applicants db position_q start_date end_date unique_only output_format =
     (case search_results db position_q start_date end_date unique_only of
        Inl e \<Rightarrow> Inl (Uncaught e)
      | Inr results \<Rightarrow>
          (if output_format = ''json''
           then Inr (JSONResponse (length results) (map to_record results))
           else if results = [] then Inl (HTTPException 404 No_applicants_found)
           else Inr (FileResponse (map to_record results))))"

subsection \<open>Notions used in the statements\<close>

text \<open>No two applicants share a non-empty phone value.\<close>

definition phone_unique :: "database \<Rightarrow> bool" where
  "phone_unique db = distinct (filter (\<lambda>p. p \<noteq> []) (map phone (applicants db)))"

text \<open>
  The applicant references of the applications a session holds, stored ones first, then
  the pending ones: the order in which the final commit leaves them in the table.
\<close>

definition app_refs :: "session \<Rightarrow> nat list" where
  "app_refs s = map applicant_id (applications (store s)) @ map fst (pending s)"

text \<open>The primary key of an applicant that is not among \<open>old\<close> belongs to it alone.\<close>

definition new_ids_unique :: "applicant list \<Rightarrow> applicant list \<Rightarrow> bool" where
  "new_ids_unique old xs =
     (\<forall>x\<in>set xs. x \<notin> set old \<longrightarrow> (\<forall>b\<in>set xs. a_id b = a_id x \<longrightarrow> b = x))"

subsection \<open>Example data\<close>

definition ex_applicant :: applicant where
  "ex_applicant =
     \<lparr>a_id = 1, full_name = ''Abebe'', phone = ''+251911223344'', labor_id = ''L1''\<rparr>"

definition ex_session :: session where
  "ex_session = \<lparr>store = \<lparr>applicants = [ex_applicant], applications = []\<rparr>, pending = []\<rparr>"

definition ex_nophone :: applicant where
  "ex_nophone = \<lparr>a_id = 1, full_name = ''Abebe'', phone = [], labor_id = []\<rparr>"

definition ex_session_nophone :: session where
  "ex_session_nophone =
     \<lparr>store = \<lparr>applicants = [ex_nophone], applications = []\<rparr>, pending = []\<rparr>"

definition ex_row_phone :: row where
  "ex_row_phone = \<lparr>POSITION_COL = Some ''Driver'', DATE_COL = Some (Date (2024, 1, 10)),
      PHONE_COL = Some ''0911223344'', LABOR_ID_COL = None, NAME_COL = Some ''Abebe''\<rparr>"

definition ex_row_later :: row where
  "ex_row_later = \<lparr>POSITION_COL = Some ''driver'', DATE_COL = Some (Date (2024, 2, 5)),
      PHONE_COL = Some ''0911223344'', LABOR_ID_COL = None, NAME_COL = Some ''Abebe''\<rparr>"

definition ex_row_nophone :: row where
  "ex_row_nophone = \<lparr>POSITION_COL = Some ''Cook'', DATE_COL = None,
      PHONE_COL = None, LABOR_ID_COL = None, NAME_COL = Some ''Almaz''\<rparr>"

definition ex_row_labor :: row where
  "ex_row_labor = \<lparr>POSITION_COL = Some ''Guard'', DATE_COL = Some (Date (2024, 1, 10)),
      PHONE_COL = Some ''0922334455'', LABOR_ID_COL = Some ''L1'', NAME_COL = Some ''Kebede''\<rparr>"

definition ex_row_nolabor :: row where
  "ex_row_nolabor = \<lparr>POSITION_COL = Some ''Guard'', DATE_COL = Some (Date (2024, 2, 5)),
      PHONE_COL = Some ''0922334455'', LABOR_ID_COL = None, NAME_COL = Some ''Kebede''\<rparr>"

definition ex_abebe :: applicant where
  "ex_abebe = \<lparr>a_id = 1, full_name = ''Abebe'', phone = ''+251911223344'', labor_id = []\<rparr>"

definition ex_almaz :: applicant where
  "ex_almaz = \<lparr>a_id = 2, full_name = ''Almaz'', phone = [], labor_id = []\<rparr>"

definition ex_app_jan :: application where
  "ex_app_jan = \<lparr>app_id = 1, applicant_id = 1, position = ''driver'',
      application_date = (2024, 1, 10), source_file = ''f.xlsx''\<rparr>"

definition ex_app_feb :: application where
  "ex_app_feb = \<lparr>app_id = 2, applicant_id = 1, position = ''driver'',
      application_date = (2024, 2, 5), source_file = ''f.xlsx''\<rparr>"

definition ex_empty :: database where
  "ex_empty = \<lparr>applicants = [], applications = []\<rparr>"

definition ex_partial :: database where
  "ex_partial = \<lparr>applicants = [ex_abebe, ex_almaz], applications = [ex_app_jan]\<rparr>"

definition ex_two :: database where
  "ex_two = \<lparr>applicants = [ex_abebe], applications = [ex_app_jan, ex_app_feb]\<rparr>"

definition ex_session_mid :: session where
  "ex_session_mid = \<lparr>store = ex_partial, pending = [(2, ''cook'', Date (2024, 3, 1), ''f.xlsx'')]\<rparr>"

definition ex_row_labor9 :: row where
  "ex_row_labor9 = \<lparr>POSITION_COL = Some ''Driver'', DATE_COL = Some (Date (2024, 1, 10)),
      PHONE_COL = Some ''0911223344'', LABOR_ID_COL = Some ''L9'', NAME_COL = Some ''Abebe''\<rparr>"

definition ex_row_nat :: row where
  "ex_row_nat = \<lparr>POSITION_COL = Some ''Driver'', DATE_COL = Some NaT,
      PHONE_COL = Some ''0911223344'', LABOR_ID_COL = None, NAME_COL = Some ''Abebe''\<rparr>"

definition ex_one :: database where
  "ex_one = \<lparr>applicants = [ex_abebe], applications = []\<rparr>"


definition ex_session_nat :: session where
  "ex_session_nat = \<lparr>store = ex_one, pending = [(1, ''driver'', NaT, ''f.xlsx'')]\<rparr>"

definition ex_one_labor9 :: database where
  "ex_one_labor9 =
     \<lparr>applicants =
        [\<lparr>a_id = 1, full_name = ''Abebe'', phone = ''+251911223344'', labor_id = ''L9''\<rparr>],
      applications = [ex_app_jan, ex_app_jan\<lparr>app_id := 2\<rparr>]\<rparr>"

section \<open>Data Cleaner: properties\<close>

lemma isdigit_not_space: "isdigit c \<Longrightarrow> \<not> isspace c"
  by (auto simp: isdigit_def isspace_def)



lemma strip_fix:
  "s = [] \<or> (\<not> isspace (hd s) \<and> \<not> isspace (last s)) \<Longrightarrow> strip s = s"
  by (cases s) (auto simp: strip_def hd_rev dropWhile_eq_self_iff split: if_splits)

lemma last_dropWhile: "dropWhile P xs \<noteq> [] \<Longrightarrow> last (dropWhile P xs) = last xs"
  by (induction xs) (auto split: if_splits)

lemma strip_ends: "strip s = [] \<or> (\<not> isspace (hd (strip s)) \<and> \<not> isspace (last (strip s)))"
proof (cases "strip s = []")
  case True
  then show ?thesis by simp
next
  case False
  define t where "t = dropWhile isspace s"
  define u where "u = dropWhile isspace (rev t)"
  have s: "strip s = rev u" by (simp add: strip_def u_def t_def)
  with False have u: "u \<noteq> []" by simp
  then have t: "t \<noteq> []" by (auto simp: u_def)
  have "\<not> isspace (hd u)" using u unfolding u_def by (rule hd_dropWhile)
  then have l: "\<not> isspace (last (strip s))" using u by (simp add: s last_rev)
  have "last u = last (rev t)" using u unfolding u_def by (rule last_dropWhile)
  then have "hd (strip s) = hd t" using u t by (simp add: s hd_rev last_rev)
  moreover have "\<not> isspace (hd t)" using t unfolding t_def by (rule hd_dropWhile)
  ultimately show ?thesis using l by simp
qed

lemma strip_strip: "strip (strip s) = strip s"
  using strip_ends [of s] by (rule strip_fix)




lemma all_digits_not_space: "\<forall>c\<in>set ds. isdigit c \<Longrightarrow> ds \<noteq> [] \<Longrightarrow> \<not> isspace (last ds)"
  by (simp add: isdigit_not_space)

lemma clean_phone_plus:
  assumes d: "\<forall>c\<in>set ds. isdigit c" and l: "length ds = 12" and p: "startswith ds ''251''"
  shows "clean_phone (Some (''+'' @ ds)) = ''+'' @ ds"
proof -
  have ne: "ds \<noteq> []" using l by auto
  have "\<not> isspace (last (''+'' @ ds))"
    using all_digits_not_space [OF d ne] ne by simp
  moreover have "\<not> isspace (hd (''+'' @ ds))" by (simp add: isspace_def)
  ultimately have s: "strip (''+'' @ ds) = ''+'' @ ds" by (intro strip_fix) simp
  have f: "filter isdigit (''+'' @ ds) = ds" using d by (simp add: isdigit_def)
  have n: "\<not> (startswith ds ''0'' \<and> length ds = 10)" using l by simp
  show ?thesis
    unfolding clean_phone_def option.case Let_def s f using n l p by simp
qed






text \<open>
  C6. Phone normalisation is idempotent: normalising a normalised number returns it
  unchanged.
\<close>

theorem clean_phone_idempotent: "clean_phone (Some (clean_phone cell)) = clean_phone cell"
proof (cases cell)
  case None
  then show ?thesis by (simp add: clean_phone_def strip_def)
next
  case (Some p)
  define ds where "ds = filter isdigit (strip p)"
  have d: "\<forall>c\<in>set ds. isdigit c" by (simp add: ds_def)
  have two: "isdigit CHR ''2'' \<and> isdigit CHR ''5'' \<and> isdigit CHR ''1''" by (simp add: isdigit_def)
  consider (A) "startswith ds ''0'' \<and> length ds = 10"
    | (B) "\<not> (startswith ds ''0'' \<and> length ds = 10)" "startswith ds ''251'' \<and> length ds = 12"
    | (C) "\<not> (startswith ds ''0'' \<and> length ds = 10)" "\<not> (startswith ds ''251'' \<and> length ds = 12)"
          "startswith ds ''9'' \<and> length ds = 9"
    | (D) "\<not> (startswith ds ''0'' \<and> length ds = 10)" "\<not> (startswith ds ''251'' \<and> length ds = 12)"
          "\<not> (startswith ds ''9'' \<and> length ds = 9)"
    by blast
  then show ?thesis
  proof cases
    case A
    then have r: "clean_phone cell = ''+'' @ (''251'' @ drop 1 ds)"
      by (simp add: Some clean_phone_def ds_def [symmetric])
    have "\<forall>c\<in>set (''251'' @ drop 1 ds). isdigit c"
      using d two by (auto dest: in_set_dropD)
    moreover have "length (''251'' @ drop 1 ds) = 12" using A by simp
    moreover have "startswith (''251'' @ drop 1 ds) ''251''" by (simp add: startswith_def)
    ultimately show ?thesis unfolding r by (rule clean_phone_plus)
  next
    case B
    then have r: "clean_phone cell = ''+'' @ ds"
      by (simp add: Some clean_phone_def ds_def [symmetric])
    show ?thesis unfolding r using d B by (intro clean_phone_plus) simp_all
  next
    case C
    then have r: "clean_phone cell = ''+'' @ (''251'' @ ds)"
      by (simp add: Some clean_phone_def ds_def [symmetric])
    have "\<forall>c\<in>set (''251'' @ ds). isdigit c" using d two by auto
    moreover have "length (''251'' @ ds) = 12" using C by simp
    moreover have "startswith (''251'' @ ds) ''251''" by (simp add: startswith_def)
    ultimately show ?thesis unfolding r by (rule clean_phone_plus)
  next
    case D
    then have r: "clean_phone cell = strip p"
      by (auto simp add: Some clean_phone_def ds_def [symmetric])
    have f: "filter isdigit (strip p) = ds" by (simp add: ds_def)
    have "clean_phone (Some (strip p)) = strip p"
      unfolding clean_phone_def option.case Let_def strip_strip f using D by auto
    then show ?thesis by (simp add: r)
  qed
qed

section \<open>Applicant Directory: properties\<close>

lemma commit_Inr:
  assumes "commit s = Inr s'"
  shows "applicants (store s') = applicants (store s)" and "pending s' = []"
    and "insert_applications (applications (store s)) (pending s) = Inr (applications (store s'))"
    and "store s' = (store s)\<lparr>applications := applications (store s')\<rparr>"
  using assms by (auto simp: commit_def split: sum.splits)

lemma add_applicant_commit_Inr:
  assumes "add_applicant_commit s nm ph lid = Inr (s', a)"
  shows "applicants (store s') = applicants (store s) @ [a]"
    and "a = \<lparr>a_id = next_id (map a_id (applicants (store s))), full_name = nm,
               phone = ph, labor_id = lid\<rparr>"
    and "ph \<notin> phone ` set (applicants (store s))"
    and "pending s' = []"
    and "insert_applications (applications (store s)) (pending s)
           = Inr (applications (store s'))"
  using assms
  by (auto simp: add_applicant_commit_def commit_def Let_def split: if_splits sum.splits)

lemma find_phone_Some:
  "find (\<lambda>a. phone a = ph) xs = Some a \<Longrightarrow> a \<in> set xs \<and> phone a = ph"
  by (auto simp: find_Some_iff)

lemma find_labor_Some:
  "find (\<lambda>a. labor_id a = l) xs = Some a \<Longrightarrow> a \<in> set xs \<and> labor_id a = l"
  by (auto simp: find_Some_iff)

lemma find_ex: "(\<exists>a\<in>set xs. P a) \<Longrightarrow> \<exists>a. find P xs = Some a"
  by (cases "find P xs") (auto simp: find_None_iff)

lemma find_app:
  "find P (xs @ ys) = (case find P xs of None \<Rightarrow> find P ys | Some x \<Rightarrow> Some x)"
  by (induction xs) auto

text \<open>
  C3. The lookup order of the claim is what a row should get, and the code misses its third
  case for a row without phone. With neither a phone nor a labor id to look up and an
  applicant without phone in the store, the code reaches the creation of the new applicant,
  and the unique index on the phone column, which also covers the empty string, refuses
  the insert: no applicant is created. The second of two rows without phone makes the
  whole upload fail with status 500.
\<close>

theorem second_phoneless_applicant_refused:
  "resolve_or_create ex_session_nophone [] [] ''Kebede'' = Inl IntegrityError
   \<and> fst (upload_excel (2024, 3, 1) ''f.xlsx'' ex_empty [ex_row_nophone, ex_row_nophone])
       = Inl (HTTPException 500 (Database_error IntegrityError))
   \<and> map full_name (applicants (snd (upload_excel (2024, 3, 1) ''f.xlsx'' ex_empty
        [ex_row_nophone, ex_row_nophone]))) = [''Almaz'']"
  by code_simp

text \<open>The first two cases of the lookup order: an applicant found is returned, none is created.\<close>

lemma resolve_or_create_found:
  "(ph \<noteq> [] \<and> (\<exists>a\<in>set (applicants (store s)). phone a = ph) \<longrightarrow>
      (\<exists>a. resolve_or_create s ph lid nm = Inr (s, a, False)
           \<and> a \<in> set (applicants (store s)) \<and> phone a = ph))
   \<and> (\<not> (ph \<noteq> [] \<and> (\<exists>a\<in>set (applicants (store s)). phone a = ph))
        \<and> lid \<noteq> [] \<and> (\<exists>a\<in>set (applicants (store s)). labor_id a = lid) \<longrightarrow>
      (\<exists>a. resolve_or_create s ph lid nm = Inr (s, a, False)
           \<and> a \<in> set (applicants (store s)) \<and> labor_id a = lid))"
proof (intro conjI impI)
  assume h: "ph \<noteq> [] \<and> (\<exists>a\<in>set (applicants (store s)). phone a = ph)"
  then obtain a where a: "find (\<lambda>a. phone a = ph) (applicants (store s)) = Some a"
    using find_ex [of "applicants (store s)" "\<lambda>a. phone a = ph"] by blast
  then have "resolve_or_create s ph lid nm = Inr (s, a, False)"
    using h by (simp add: resolve_or_create_def query_phone_def)
  then show "\<exists>a. resolve_or_create s ph lid nm = Inr (s, a, False)
           \<and> a \<in> set (applicants (store s)) \<and> phone a = ph"
    using find_phone_Some [OF a] by blast
next
  assume h: "\<not> (ph \<noteq> [] \<and> (\<exists>a\<in>set (applicants (store s)). phone a = ph))
        \<and> lid \<noteq> [] \<and> (\<exists>a\<in>set (applicants (store s)). labor_id a = lid)"
  then have n: "(if ph \<noteq> [] then query_phone s ph else None) = None"
    by (auto simp: query_phone_def find_None_iff)
  from h obtain a where a: "find (\<lambda>a. labor_id a = lid) (applicants (store s)) = Some a"
    using find_ex [of "applicants (store s)" "\<lambda>a. labor_id a = lid"] by blast
  then have "resolve_or_create s ph lid nm = Inr (s, a, False)"
    using h unfolding resolve_or_create_def n Let_def by (simp add: query_labor_id_def)
  then show "\<exists>a. resolve_or_create s ph lid nm = Inr (s, a, False)
           \<and> a \<in> set (applicants (store s)) \<and> labor_id a = lid"
    using find_labor_Some [OF a] by blast
qed

section \<open>Upload: properties\<close>

subsection \<open>The row loop\<close>

lemma row_loop_append:
  "row_loop today fn s st (xs @ ys) =
     (case row_loop today fn s st xs of
        (Inl e, s') \<Rightarrow> (Inl e, s')
      | (Inr st', s') \<Rightarrow> row_loop today fn s' st' ys)"
  by (induction xs arbitrary: s st) (auto split: sum.splits prod.splits)

lemma resolve_or_create_no_phone:
  assumes "\<exists>a\<in>set (applicants (store s)). phone a = []"
    and "lid = [] \<or> (\<forall>a\<in>set (applicants (store s)). labor_id a \<noteq> lid)"
  shows "resolve_or_create s [] lid nm = Inl IntegrityError"
proof -
  have "(if lid \<noteq> [] then query_labor_id s lid else None) = None"
    using assms(2) by (auto simp: query_labor_id_def find_None_iff)
  moreover have "add_applicant_commit s nm [] lid = Inl IntegrityError"
    using assms(1) by (force simp: add_applicant_commit_def)
  ultimately show ?thesis by (simp add: resolve_or_create_def)
qed

lemma resolve_or_create_applicants:
  assumes "resolve_or_create s ph lid nm = Inr (s', a, c)"
  shows "(\<not> c \<and> s' = s \<and> a \<in> set (applicants (store s)))
         \<or> (c \<and> applicants (store s') = applicants (store s) @ [a] \<and> phone a = ph
             \<and> ph \<notin> phone ` set (applicants (store s)) \<and> pending s' = []
             \<and> add_applicant_commit s nm ph lid = Inr (s', a))"
proof -
  define found where "found = (if ph \<noteq> [] then query_phone s ph else None)"
  define found2 where "found2 = (if found = None \<and> lid \<noteq> [] then query_labor_id s lid else found)"
  have r: "resolve_or_create s ph lid nm =
        (case found2 of Some a \<Rightarrow> Inr (s, a, False)
         | None \<Rightarrow> (case add_applicant_commit s nm ph lid of Inl e \<Rightarrow> Inl e
                     | Inr (s', a) \<Rightarrow> Inr (s', a, True)))"
    by (simp add: resolve_or_create_def found_def found2_def Let_def)
  show ?thesis
  proof (cases found2)
    case None
    with assms r obtain "add_applicant_commit s nm ph lid = Inr (s', a)" and "c"
      by (auto split: sum.splits)
    then show ?thesis using add_applicant_commit_Inr [of s nm ph lid s' a] by simp
  next
    case (Some b)
    with assms r have e: "s' = s" "a = b" "\<not> c" by auto
    have "b \<in> set (applicants (store s))"
      using Some unfolding found2_def found_def query_phone_def query_labor_id_def
      by (auto split: if_splits dest: find_phone_Some find_labor_Some)
    then show ?thesis using e by simp
  qed
qed

lemma process_row_cases:
  assumes "process_row today fn s st r = Inr (s', st')"
  shows "(store s' = store s \<and> new_applicants st' = new_applicants st)
       \<or> (\<exists>s1 a. add_applicant_commit s (clean_text (NAME_COL r)) (clean_phone (PHONE_COL r))
                    (clean_text (LABOR_ID_COL r)) = Inr (s1, a)
               \<and> store s' = store s1 \<and> new_applicants st' = new_applicants st + 1)"
proof -
  from assms obtain s1 a c where
    rc: "resolve_or_create s (clean_phone (PHONE_COL r)) (clean_text (LABOR_ID_COL r))
           (clean_text (NAME_COL r)) = Inr (s1, a, c)"
    and s': "store s' = store s1"
    and n: "new_applicants st' = (if c then new_applicants st + 1 else new_applicants st)"
    by (auto simp: process_row_def Let_def split: sum.splits)
  from resolve_or_create_applicants [OF rc] show ?thesis using s' n by auto
qed

lemma process_row_store:
  assumes "process_row today fn s st r = Inr (s', st')"
  shows "store s' = store s
         \<or> (\<exists>a. applicants (store s') = applicants (store s) @ [a]
                \<and> phone a \<notin> phone ` set (applicants (store s)))"
proof -
  from assms obtain s1 a c where
    rc: "resolve_or_create s (clean_phone (PHONE_COL r)) (clean_text (LABOR_ID_COL r))
           (clean_text (NAME_COL r)) = Inr (s1, a, c)"
    and s': "store s' = store s1"
    by (auto simp: process_row_def Let_def split: sum.splits)
  from resolve_or_create_applicants [OF rc] show ?thesis using s' by auto
qed

subsection \<open>The examples, evaluated\<close>

lemma ex_phones:
  "clean_phone (PHONE_COL ex_row_phone) = ''+251911223344''"
  "clean_phone (PHONE_COL ex_row_later) = ''+251911223344''"
  "clean_phone (PHONE_COL ex_row_labor9) = ''+251911223344''"
  "clean_text (LABOR_ID_COL ex_row_phone) = []"
  "clean_phone (PHONE_COL ex_row_nophone) = []"
  "clean_text (LABOR_ID_COL ex_row_nophone) = []"
  "clean_text (LABOR_ID_COL ex_row_labor9) = ''L9''"
  by code_simp+

lemma ex_failed_upload:
  "upload_excel (2024, 3, 1) ''f.xlsx'' ex_empty [ex_row_phone, ex_row_nophone, ex_row_nophone]
     = (Inl (HTTPException 500 (Database_error IntegrityError)), ex_partial)"
  by code_simp

lemma ex_nat_upload:
  "upload_excel (2024, 3, 1) ''f.xlsx'' ex_empty [ex_row_nat]
     = (Inl (HTTPException 500 (Database_error ValueError)), ex_one)"
  by code_simp

lemma ex_two_upload:
  "upload_excel (2024, 3, 1) ''f.xlsx'' ex_empty [ex_row_phone, ex_row_later]
     = (Inr \<lparr>new_applicants = 1, existing_applicants = 1, applications_added = 2\<rparr>, ex_two)"
  by code_simp

lemma ex_mid_loop:
  "row_loop (2024, 3, 1) ''f.xlsx'' \<lparr>store = ex_empty, pending = []\<rparr> stats0
      [ex_row_phone, ex_row_nophone]
     = (Inr \<lparr>new_applicants = 2, existing_applicants = 0, applications_added = 2\<rparr>,
        ex_session_mid)"
  by code_simp

subsection \<open>A second applicant without phone\<close>

text \<open>
  C10. The unique index on the phone column also covers the empty string. When a row is
  reached whose cleaned phone is empty, whose cleaned labor id is empty or matches no
  stored applicant, and an applicant with empty phone is stored, the insert is refused: the
  request fails with status 500, and the store is left as it was when the row was reached,
  without the applicant.
\<close>

theorem upload_second_empty_phone_fails:
  assumes "row_loop today fn \<lparr>store = db, pending = []\<rparr> stats0 pre = (Inr st, s)"
    and "clean_phone (PHONE_COL r) = []"
    and "clean_text (LABOR_ID_COL r) = []
         \<or> (\<forall>a\<in>set (applicants (store s)). labor_id a \<noteq> clean_text (LABOR_ID_COL r))"
    and "\<exists>a\<in>set (applicants (store s)). phone a = []"
  shows "upload_excel today fn db (pre @ r # post)
           = (Inl (HTTPException 500 (Database_error IntegrityError)), store s)"
proof -
  have "process_row today fn s st r = Inl IntegrityError"
    using resolve_or_create_no_phone [OF assms(4) assms(3)] assms(2)
    by (simp add: process_row_def)
  then have "row_loop today fn \<lparr>store = db, pending = []\<rparr> stats0 (pre @ r # post)
               = (Inl IntegrityError, s)"
    using assms(1) by (simp add: row_loop_append)
  then show ?thesis by (simp add: upload_excel_def rollback_def)
qed

theorem upload_second_empty_phone_fails_witness:
  "upload_excel (2024, 3, 1) ''f.xlsx'' ex_empty
      ([ex_row_phone, ex_row_nophone] @ ex_row_nophone # [ex_row_later])
     = (Inl (HTTPException 500 (Database_error IntegrityError)), store ex_session_mid)"
proof -
  have "\<exists>a\<in>set (applicants (store ex_session_mid)). phone a = []"
    by (simp add: ex_session_mid_def ex_partial_def ex_almaz_def)
  then show ?thesis
    using upload_second_empty_phone_fails [OF ex_mid_loop, of ex_row_nophone "[ex_row_later]"]
    by (simp add: ex_phones)
qed

subsection \<open>Uniqueness of the non-empty phones\<close>

lemma phone_unique_snoc:
  "distinct (filter (\<lambda>p. p \<noteq> []) (map phone xs)) \<Longrightarrow> phone a \<notin> phone ` set xs \<Longrightarrow>
   distinct (filter (\<lambda>p. p \<noteq> []) (map phone (xs @ [a])))"
  by auto

lemma process_row_phone_unique:
  assumes "process_row today fn s st r = Inr (s', st')" and "phone_unique (store s)"
  shows "phone_unique (store s')"
  using process_row_store [OF assms(1)] assms(2) unfolding phone_unique_def
  by (auto simp del: distinct_append map_append filter_append intro: phone_unique_snoc)

lemma row_loop_phone_unique:
  "phone_unique (store s) \<Longrightarrow> phone_unique (store (snd (row_loop today fn s st rows)))"
proof (induction rows arbitrary: s st)
  case Nil
  then show ?case by simp
next
  case (Cons r rows)
  show ?case
  proof (cases "process_row today fn s st r")
    case (Inl e)
    then show ?thesis using Cons.prems by simp
  next
    case (Inr p)
    obtain s' st' where p: "p = (s', st')" by (cases p)
    have "phone_unique (store s')"
      using process_row_phone_unique Inr Cons.prems unfolding p by blast
    from Cons.IH [OF this] show ?thesis using Inr p by simp
  qed
qed

lemma applicants_upload:
  "applicants (snd (upload_excel today fn db rows))
     = applicants (store (snd (row_loop today fn \<lparr>store = db, pending = []\<rparr> stats0 rows)))"
  by (auto simp: upload_excel_def rollback_def split: prod.splits sum.splits
      dest: commit_Inr(1))

text \<open>
  C2. No two applicants share a non-empty phone value: an upload of any rows, from any
  store in which this holds, leaves a store in which it holds, whether the request succeeds
  or fails.
\<close>

theorem upload_preserves_phone_unique:
  assumes "phone_unique db"
  shows "phone_unique (snd (upload_excel today fn db rows))"
proof -
  have "phone_unique (store \<lparr>store = db, pending = []\<rparr>)" using assms by simp
  from row_loop_phone_unique [OF this, of today fn stats0 rows]
  show ?thesis by (simp add: phone_unique_def applicants_upload)
qed

theorem upload_preserves_phone_unique_witness:
  "phone_unique ex_empty
   \<and> phone_unique (snd (upload_excel (2024, 3, 1) ''f.xlsx'' ex_empty
        [ex_row_phone, ex_row_nophone, ex_row_later]))"
proof -
  have h: "phone_unique ex_empty" by (simp add: phone_unique_def ex_empty_def)
  show ?thesis by (rule conjI [OF h upload_preserves_phone_unique [OF h]])
qed

subsection \<open>What a failed upload leaves behind\<close>

lemma insert_applications_refs:
  "insert_applications apps ps = Inr apps' \<Longrightarrow>
     map applicant_id apps' = map applicant_id apps @ map fst ps"
  by (induction apps ps arbitrary: apps' rule: insert_applications.induct) auto

lemma insert_applications_prefix:
  "insert_applications apps xs = Inr apps' \<Longrightarrow> \<exists>ps. apps' = apps @ ps"
  by (induction apps xs arbitrary: apps' rule: insert_applications.induct) auto

lemma app_refs_commit: "commit s = Inr s' \<Longrightarrow> app_refs s' = app_refs s"
  using commit_Inr(2,3) [of s s'] by (simp add: app_refs_def insert_applications_refs)

lemma add_applicant_commit_refs:
  "add_applicant_commit s nm ph lid = Inr (s', a) \<Longrightarrow> app_refs s' = app_refs s"
  using add_applicant_commit_Inr(4,5) [of s nm ph lid s' a]
  by (simp add: app_refs_def insert_applications_refs)

lemma process_row_resolve:
  assumes "process_row today fn s st r = Inr (s', st')"
  shows "\<exists>s1 a c. resolve_or_create s (clean_phone (PHONE_COL r)) (clean_text (LABOR_ID_COL r))
                     (clean_text (NAME_COL r)) = Inr (s1, a, c)
               \<and> store s' = store s1 \<and> app_refs s' = app_refs s @ [a_id a]"
proof -
  from assms obtain s1 a c where
    rc: "resolve_or_create s (clean_phone (PHONE_COL r)) (clean_text (LABOR_ID_COL r))
           (clean_text (NAME_COL r)) = Inr (s1, a, c)"
    and s': "store s' = store s1" and p: "app_refs s' = app_refs s1 @ [a_id a]"
    by (auto simp: process_row_def Let_def app_refs_def split: sum.splits)
  have "app_refs s1 = app_refs s"
    using resolve_or_create_applicants [OF rc] by (auto dest: add_applicant_commit_refs)
  with rc s' p show ?thesis by auto
qed

lemma row_loop_refs:
  "row_loop today fn s st rows = (Inr st', s') \<Longrightarrow>
     \<exists>ids. app_refs s' = app_refs s @ ids \<and> length ids = length rows"
proof (induction rows arbitrary: s st)
  case Nil
  then show ?case by simp
next
  case (Cons r rows)
  from Cons.prems obtain s1 st1 where
    p: "process_row today fn s st r = Inr (s1, st1)"
    and l: "row_loop today fn s1 st1 rows = (Inr st', s')"
    by (auto split: sum.splits)
  from process_row_resolve [OF p] obtain b where "app_refs s1 = app_refs s @ [b]" by blast
  moreover from Cons.IH [OF l] obtain ids where
    "app_refs s' = app_refs s1 @ ids" "length ids = length rows" by blast
  ultimately have "app_refs s' = app_refs s @ (b # ids) \<and> length (b # ids) = length (r # rows)"
    by simp
  then show ?case by blast
qed

lemma upload_success:
  assumes "upload_excel today fn db rows = (Inr st, db')"
  shows "\<exists>s s'. row_loop today fn \<lparr>store = db, pending = []\<rparr> stats0 rows = (Inr st, s)
            \<and> commit s = Inr s' \<and> db' = store s'"
  using assms by (auto simp: upload_excel_def split: prod.splits sum.splits)

lemma upload_success_length:
  assumes "upload_excel today fn db rows = (Inr st, db')"
  shows "length (applications db') = length (applications db) + length rows"
proof -
  from upload_success [OF assms] obtain s s' where
    l: "row_loop today fn \<lparr>store = db, pending = []\<rparr> stats0 rows = (Inr st, s)"
    and c: "commit s = Inr s'" and d: "db' = store s'" by blast
  from row_loop_refs [OF l] obtain ids where
    "app_refs s = app_refs \<lparr>store = db, pending = []\<rparr> @ ids" "length ids = length rows" by blast
  then have "map applicant_id (applications db') = map applicant_id (applications db) @ ids"
    using app_refs_commit [OF c] commit_Inr(2) [OF c] by (simp add: app_refs_def d)
  then have "length (map applicant_id (applications db'))
      = length (map applicant_id (applications db) @ ids)" by simp
  then show ?thesis using \<open>length ids = length rows\<close> by simp
qed

lemma add_applicant_commit_as_commit:
  assumes "add_applicant_commit s nm ph lid = Inr (s1, a)"
  shows "\<exists>s2. commit s = Inr s2
     \<and> store s1 = (store s2)\<lparr>applicants := applicants (store s2) @
         [\<lparr>a_id = next_id (map a_id (applicants (store s2))), full_name = nm,
           phone = ph, labor_id = lid\<rparr>]\<rparr>"
  using assms
  by (auto simp: add_applicant_commit_def commit_def Let_def split: if_splits sum.splits)

lemma row_loop_last_commit:
  "row_loop today fn s0 st0 pre = (Inr st, s) \<Longrightarrow>
   (new_applicants st = new_applicants st0 \<and> store s = store s0)
   \<or> (\<exists>j<length pre. \<exists>st1 s1 s2 a.
         row_loop today fn s0 st0 (take j pre) = (Inr st1, s1)
         \<and> add_applicant_commit s1 (clean_text (NAME_COL (pre ! j)))
              (clean_phone (PHONE_COL (pre ! j))) (clean_text (LABOR_ID_COL (pre ! j)))
             = Inr (s2, a)
         \<and> store s = store s2 \<and> new_applicants st = new_applicants st1 + 1)"
proof (induction pre arbitrary: st s rule: rev_induct)
  case Nil
  then show ?case by simp
next
  case (snoc x xs)
  from snoc.prems obtain st1 s1 where
    l: "row_loop today fn s0 st0 xs = (Inr st1, s1)"
    and p: "process_row today fn s1 st1 x = Inr (s, st)"
    by (auto simp: row_loop_append split: sum.splits prod.splits)
  from process_row_cases [OF p] show ?case
  proof
    assume same: "store s = store s1 \<and> new_applicants st = new_applicants st1"
    from snoc.IH [OF l] show ?thesis
    proof
      assume "new_applicants st1 = new_applicants st0 \<and> store s1 = store s0"
      then show ?thesis using same by simp
    next
      assume "\<exists>j<length xs. \<exists>st2 s2 s3 a.
         row_loop today fn s0 st0 (take j xs) = (Inr st2, s2)
         \<and> add_applicant_commit s2 (clean_text (NAME_COL (xs ! j)))
              (clean_phone (PHONE_COL (xs ! j))) (clean_text (LABOR_ID_COL (xs ! j)))
             = Inr (s3, a)
         \<and> store s1 = store s3 \<and> new_applicants st1 = new_applicants st2 + 1"
      then obtain j st2 s2 s3 a where j: "j < length xs"
        and r: "row_loop today fn s0 st0 (take j xs) = (Inr st2, s2)"
        and c: "add_applicant_commit s2 (clean_text (NAME_COL (xs ! j)))
              (clean_phone (PHONE_COL (xs ! j))) (clean_text (LABOR_ID_COL (xs ! j)))
             = Inr (s3, a)"
        and e: "store s1 = store s3" "new_applicants st1 = new_applicants st2 + 1" by blast
      have "j < length (xs @ [x])
         \<and> row_loop today fn s0 st0 (take j (xs @ [x])) = (Inr st2, s2)
         \<and> add_applicant_commit s2 (clean_text (NAME_COL ((xs @ [x]) ! j)))
              (clean_phone (PHONE_COL ((xs @ [x]) ! j)))
              (clean_text (LABOR_ID_COL ((xs @ [x]) ! j))) = Inr (s3, a)
         \<and> store s = store s3 \<and> new_applicants st = new_applicants st2 + 1"
        using j r c e same by (simp add: nth_append)
      then show ?thesis by blast
    qed
  next
    assume "\<exists>s2 a. add_applicant_commit s1 (clean_text (NAME_COL x)) (clean_phone (PHONE_COL x))
                    (clean_text (LABOR_ID_COL x)) = Inr (s2, a)
               \<and> store s = store s2 \<and> new_applicants st = new_applicants st1 + 1"
    then obtain s2 a where
      c: "add_applicant_commit s1 (clean_text (NAME_COL x)) (clean_phone (PHONE_COL x))
                    (clean_text (LABOR_ID_COL x)) = Inr (s2, a)"
      and e: "store s = store s2" "new_applicants st = new_applicants st1 + 1" by blast
    have "length xs < length (xs @ [x])
         \<and> row_loop today fn s0 st0 (take (length xs) (xs @ [x])) = (Inr st1, s1)
         \<and> add_applicant_commit s1 (clean_text (NAME_COL ((xs @ [x]) ! length xs)))
              (clean_phone (PHONE_COL ((xs @ [x]) ! length xs)))
              (clean_text (LABOR_ID_COL ((xs @ [x]) ! length xs))) = Inr (s2, a)
         \<and> store s = store s2 \<and> new_applicants st = new_applicants st1 + 1"
      using l c e by simp
    then show ?thesis by blast
  qed
qed

lemma upload_fails_at:
  assumes "row_loop today fn \<lparr>store = db, pending = []\<rparr> stats0 pre = (Inr st, s)"
    and "(rows = pre @ r # post \<and> process_row today fn s st r = Inl e)
         \<or> (rows = pre \<and> commit s = Inl e)"
  shows "upload_excel today fn db rows = (Inl (HTTPException 500 (Database_error e)), store s)"
  using assms by (auto simp: upload_excel_def rollback_def row_loop_append)

text \<open>
  C1, as the code has it. Let the rows \<open>pre\<close> be processed without error, and let then the
  next row raise, or, when there is no further row, the final commit. Then the request
  fails with status 500 and the error raised, and the store ends as the last commit inside
  the batch left it, the commit of the last row of \<open>pre\<close> that created an applicant:
  \<^item> when no row of \<open>pre\<close> created an applicant, the store is as before the batch;
  \<^item> otherwise, with \<open>j\<close> the last row of \<open>pre\<close> that created an applicant, the store is
    what a successful upload of the rows before \<open>j\<close> alone leaves (one application for
    each of them), together with the applicant of row \<open>j\<close>. The applications of row \<open>j\<close>
    and of the rows after it are dropped.
\<close>

theorem upload_failure_keeps_last_commit:
  assumes pre: "row_loop today fn \<lparr>store = db, pending = []\<rparr> stats0 pre = (Inr st, s)"
    and fail: "(rows = pre @ r # post \<and> process_row today fn s st r = Inl e)
               \<or> (rows = pre \<and> commit s = Inl e)"
  shows "upload_excel today fn db rows = (Inl (HTTPException 500 (Database_error e)), store s)
       \<and> (new_applicants st = 0 \<longrightarrow> store s = db)
       \<and> (new_applicants st \<noteq> 0 \<longrightarrow>
            (\<exists>j<length pre. \<exists>st1 db1.
               upload_excel today fn db (take j pre) = (Inr st1, db1)
               \<and> new_applicants st = new_applicants st1 + 1
               \<and> length (applications db1) = length (applications db) + j
               \<and> store s = db1\<lparr>applicants := applicants db1 @
                    [\<lparr>a_id = next_id (map a_id (applicants db1)),
                      full_name = clean_text (NAME_COL (pre ! j)),
                      phone = clean_phone (PHONE_COL (pre ! j)),
                      labor_id = clean_text (LABOR_ID_COL (pre ! j))\<rparr>]\<rparr>))"
proof (intro conjI impI)
  show "upload_excel today fn db rows = (Inl (HTTPException 500 (Database_error e)), store s)"
    using pre fail by (rule upload_fails_at)
next
  assume "new_applicants st = 0"
  then show "store s = db" using row_loop_last_commit [OF pre] by (auto simp: stats0_def)
next
  assume "new_applicants st \<noteq> 0"
  with row_loop_last_commit [OF pre] obtain j st1 s1 s2 a where j: "j < length pre"
    and r: "row_loop today fn \<lparr>store = db, pending = []\<rparr> stats0 (take j pre) = (Inr st1, s1)"
    and c: "add_applicant_commit s1 (clean_text (NAME_COL (pre ! j)))
              (clean_phone (PHONE_COL (pre ! j))) (clean_text (LABOR_ID_COL (pre ! j)))
             = Inr (s2, a)"
    and e: "store s = store s2" "new_applicants st = new_applicants st1 + 1"
    by (auto simp: stats0_def)
  from add_applicant_commit_as_commit [OF c] obtain s3 where
    c3: "commit s1 = Inr s3"
    and s2: "store s2 = (store s3)\<lparr>applicants := applicants (store s3) @
         [\<lparr>a_id = next_id (map a_id (applicants (store s3))),
           full_name = clean_text (NAME_COL (pre ! j)),
           phone = clean_phone (PHONE_COL (pre ! j)),
           labor_id = clean_text (LABOR_ID_COL (pre ! j))\<rparr>]\<rparr>" by blast
  have u: "upload_excel today fn db (take j pre) = (Inr st1, store s3)"
    using r c3 by (simp add: upload_excel_def)
  have "length (take j pre) = j" using j by simp
  with upload_success_length [OF u]
  have len: "length (applications (store s3)) = length (applications db) + j" by simp
  have "j < length pre \<and> upload_excel today fn db (take j pre) = (Inr st1, store s3)
               \<and> new_applicants st = new_applicants st1 + 1
               \<and> length (applications (store s3)) = length (applications db) + j
               \<and> store s = (store s3)\<lparr>applicants := applicants (store s3) @
                    [\<lparr>a_id = next_id (map a_id (applicants (store s3))),
                      full_name = clean_text (NAME_COL (pre ! j)),
                      phone = clean_phone (PHONE_COL (pre ! j)),
                      labor_id = clean_text (LABOR_ID_COL (pre ! j))\<rparr>]\<rparr>"
    using j u e len s2 by simp
  then show "\<exists>j<length pre. \<exists>st1 db1.
               upload_excel today fn db (take j pre) = (Inr st1, db1)
               \<and> new_applicants st = new_applicants st1 + 1
               \<and> length (applications db1) = length (applications db) + j
               \<and> store s = db1\<lparr>applicants := applicants db1 @
                    [\<lparr>a_id = next_id (map a_id (applicants db1)),
                      full_name = clean_text (NAME_COL (pre ! j)),
                      phone = clean_phone (PHONE_COL (pre ! j)),
                      labor_id = clean_text (LABOR_ID_COL (pre ! j))\<rparr>]\<rparr>"
    by blast
qed

lemma ex_mid_fail:
  "process_row (2024, 3, 1) ''f.xlsx'' ex_session_mid
     \<lparr>new_applicants = 2, existing_applicants = 0, applications_added = 2\<rparr> ex_row_nophone
     = Inl IntegrityError"
  by code_simp

lemma ex_nat_loop:
  "row_loop (2024, 3, 1) ''f.xlsx'' \<lparr>store = ex_empty, pending = []\<rparr> stats0 [ex_row_nat]
     = (Inr \<lparr>new_applicants = 1, existing_applicants = 0, applications_added = 1\<rparr>,
        ex_session_nat)"
  by code_simp

lemma ex_nat_commit: "commit ex_session_nat = Inl ValueError"
  by code_simp

text \<open>
  The claim C1 as it is written fails. In the first batch the first row creates an
  applicant, the second one too (its commit also stores the first row's application), and
  the third is refused: both applicants and one application of the failed batch stay in
  the store. In the second batch the only row creates an applicant and queues an
  application dated \<^verbatim>\<open>NaT\<close>, on which the final commit raises: the applicant stays.
\<close>

theorem upload_not_atomic_counterexample:
  "fst (upload_excel (2024, 3, 1) ''f.xlsx'' ex_empty
          [ex_row_phone, ex_row_nophone, ex_row_nophone])
     = Inl (HTTPException 500 (Database_error IntegrityError))
   \<and> snd (upload_excel (2024, 3, 1) ''f.xlsx'' ex_empty
          [ex_row_phone, ex_row_nophone, ex_row_nophone]) = ex_partial
   \<and> ex_partial \<noteq> ex_empty
   \<and> upload_excel (2024, 3, 1) ''f.xlsx'' ex_empty [ex_row_nat]
       = (Inl (HTTPException 500 (Database_error ValueError)), ex_one)
   \<and> ex_one \<noteq> ex_empty"
  using ex_failed_upload ex_nat_upload by (simp add: ex_partial_def ex_empty_def ex_one_def)

theorem upload_failure_keeps_last_commit_witness:
  "upload_excel (2024, 3, 1) ''f.xlsx'' ex_empty
      ([ex_row_phone, ex_row_nophone] @ ex_row_nophone # [])
     = (Inl (HTTPException 500 (Database_error IntegrityError)), store ex_session_mid)
   \<and> (\<exists>j<length [ex_row_phone, ex_row_nophone]. \<exists>st1 db1.
         upload_excel (2024, 3, 1) ''f.xlsx'' ex_empty (take j [ex_row_phone, ex_row_nophone])
           = (Inr st1, db1)
         \<and> 2 = new_applicants st1 + 1
         \<and> length (applications db1) = length (applications ex_empty) + j
         \<and> store ex_session_mid = db1\<lparr>applicants := applicants db1 @
              [\<lparr>a_id = next_id (map a_id (applicants db1)),
                full_name = clean_text (NAME_COL ([ex_row_phone, ex_row_nophone] ! j)),
                phone = clean_phone (PHONE_COL ([ex_row_phone, ex_row_nophone] ! j)),
                labor_id = clean_text (LABOR_ID_COL ([ex_row_phone, ex_row_nophone] ! j))\<rparr>]\<rparr>)
   \<and> upload_excel (2024, 3, 1) ''f.xlsx'' ex_empty [ex_row_nat]
       = (Inl (HTTPException 500 (Database_error ValueError)), store ex_session_nat)"
proof -
  have f1: "([ex_row_phone, ex_row_nophone] @ ex_row_nophone # []
               = [ex_row_phone, ex_row_nophone] @ ex_row_nophone # []
             \<and> process_row (2024, 3, 1) ''f.xlsx'' ex_session_mid
                 \<lparr>new_applicants = 2, existing_applicants = 0, applications_added = 2\<rparr>
                 ex_row_nophone = Inl IntegrityError)
            \<or> ([ex_row_phone, ex_row_nophone] @ ex_row_nophone # []
                 = [ex_row_phone, ex_row_nophone]
               \<and> commit ex_session_mid = Inl IntegrityError)"
    using ex_mid_fail by simp
  have f2: "([ex_row_nat] = [ex_row_nat] @ ex_row_nat # []
             \<and> process_row (2024, 3, 1) ''f.xlsx'' ex_session_nat
                 \<lparr>new_applicants = 1, existing_applicants = 0, applications_added = 1\<rparr>
                 ex_row_nat = Inl ValueError)
            \<or> ([ex_row_nat] = [ex_row_nat] \<and> commit ex_session_nat = Inl ValueError)"
    using ex_nat_commit by simp
  show ?thesis
    using upload_failure_keeps_last_commit [OF ex_mid_loop f1]
      upload_failure_keeps_last_commit [OF ex_nat_loop f2]
    by simp
qed

subsection \<open>Two rows with the same phone\<close>

lemma row_after_creation:
  assumes q: "query_phone s P = Some a" and P: "P \<noteq> []"
    and l: "row_loop today fn s st rows = (Inr st', s')"
  shows "query_phone s' P = Some a
       \<and> (\<exists>ids. app_refs s' = app_refs s @ ids \<and> length ids = length rows
            \<and> (\<forall>k<length rows. clean_phone (PHONE_COL (rows ! k)) = P \<longrightarrow> ids ! k = a_id a))"
  using q l
proof (induction rows arbitrary: s st)
  case Nil
  then show ?case by simp
next
  case (Cons r rows)
  from Cons.prems obtain s1 st1 where
    p: "process_row today fn s st r = Inr (s1, st1)"
    and l: "row_loop today fn s1 st1 rows = (Inr st', s')"
    by (auto split: sum.splits)
  from process_row_resolve [OF p] obtain s2 b c where
    rc: "resolve_or_create s (clean_phone (PHONE_COL r)) (clean_text (LABOR_ID_COL r))
           (clean_text (NAME_COL r)) = Inr (s2, b, c)"
    and st: "store s1 = store s2" and refs: "app_refs s1 = app_refs s @ [a_id b]" by blast
  have q1: "query_phone s1 P = Some a"
    using resolve_or_create_applicants [OF rc] Cons.prems(1) st
    by (auto simp: query_phone_def find_app)
  have b: "clean_phone (PHONE_COL r) = P \<Longrightarrow> b = a"
    using rc Cons.prems(1) P by (simp add: resolve_or_create_def)
  from Cons.IH [OF q1 l] obtain ids where
    ids: "app_refs s' = app_refs s1 @ ids" "length ids = length rows"
      "\<forall>k<length rows. clean_phone (PHONE_COL (rows ! k)) = P \<longrightarrow> ids ! k = a_id a"
    and q': "query_phone s' P = Some a" by blast
  have "app_refs s' = app_refs s @ (a_id b # ids) \<and> length (a_id b # ids) = length (r # rows)
      \<and> (\<forall>k<length (r # rows). clean_phone (PHONE_COL ((r # rows) ! k)) = P \<longrightarrow> (a_id b # ids) ! k = a_id a)"
    using ids refs b by (auto simp: nth_Cons split: nat.splits)
  then show ?case using q' by blast
qed

lemma rows_without_phone:
  "query_phone s P = None \<Longrightarrow> \<forall>r\<in>set rows. clean_phone (PHONE_COL r) \<noteq> P \<Longrightarrow>
   row_loop today fn s st rows = (Inr st', s') \<Longrightarrow> query_phone s' P = None"
proof (induction rows arbitrary: s st)
  case Nil
  then show ?case by simp
next
  case (Cons r rows)
  from Cons.prems(3) obtain s1 st1 where
    p: "process_row today fn s st r = Inr (s1, st1)"
    and l: "row_loop today fn s1 st1 rows = (Inr st', s')"
    by (auto split: sum.splits)
  from process_row_resolve [OF p] obtain s2 b c where
    rc: "resolve_or_create s (clean_phone (PHONE_COL r)) (clean_text (LABOR_ID_COL r))
           (clean_text (NAME_COL r)) = Inr (s2, b, c)"
    and st: "store s1 = store s2" by blast
  have "query_phone s1 P = None"
    using resolve_or_create_applicants [OF rc] Cons.prems(1,2) st
    by (auto simp: query_phone_def find_app find_None_iff)
  from Cons.IH [OF this _ l] Cons.prems(2) show ?case by simp
qed

lemma first_row_creates:
  assumes q: "query_phone s P = None" and P: "P \<noteq> []"
    and ph: "clean_phone (PHONE_COL r) = P"
    and lab: "clean_text (LABOR_ID_COL r) = []
              \<or> (\<forall>a\<in>set (applicants (store s)). labor_id a \<noteq> clean_text (LABOR_ID_COL r))"
    and p: "process_row today fn s st r = Inr (s', st')"
  shows "\<exists>a. query_phone s' P = Some a \<and> app_refs s' = app_refs s @ [a_id a]"
proof -
  from process_row_resolve [OF p] obtain s2 b c where
    rc: "resolve_or_create s (clean_phone (PHONE_COL r)) (clean_text (LABOR_ID_COL r))
           (clean_text (NAME_COL r)) = Inr (s2, b, c)"
    and st: "store s' = store s2" and refs: "app_refs s' = app_refs s @ [a_id b]" by blast
  have n: "(if clean_text (LABOR_ID_COL r) \<noteq> []
            then query_labor_id s (clean_text (LABOR_ID_COL r)) else None) = None"
    using lab by (auto simp: query_labor_id_def find_None_iff)
  have "c" using rc q P ph n by (auto simp: resolve_or_create_def split: sum.splits)
  then have "applicants (store s2) = applicants (store s) @ [b]" "phone b = P"
    using resolve_or_create_applicants [OF rc] ph by auto
  then have "query_phone s' P = Some b"
    using q st by (simp add: query_phone_def find_app)
  then show ?thesis using refs by blast
qed

lemma process_row_count:
  assumes "process_row today fn s st r = Inr (s', st')"
    and "length (filter (\<lambda>x. phone x = P) (applicants (store s))) \<le> 1"
  shows "length (filter (\<lambda>x. phone x = P) (applicants (store s'))) \<le> 1"
proof -
  from process_row_store [OF assms(1)] show ?thesis
  proof
    assume "store s' = store s"
    then show ?thesis using assms(2) by simp
  next
    assume "\<exists>a. applicants (store s') = applicants (store s) @ [a]
                \<and> phone a \<notin> phone ` set (applicants (store s))"
    then obtain a where a: "applicants (store s') = applicants (store s) @ [a]"
      "phone a \<notin> phone ` set (applicants (store s))" by blast
    show ?thesis
    proof (cases "phone a = P")
      case True
      then have "filter (\<lambda>x. phone x = P) (applicants (store s)) = []"
        using a(2) by (force simp: filter_empty_conv image_iff)
      then show ?thesis using a(1) by simp
    next
      case False
      then show ?thesis using a(1) assms(2) by simp
    qed
  qed
qed

lemma row_loop_count:
  "row_loop today fn s st rows = (Inr st', s') \<Longrightarrow>
   length (filter (\<lambda>x. phone x = P) (applicants (store s))) \<le> 1 \<Longrightarrow>
   length (filter (\<lambda>x. phone x = P) (applicants (store s'))) \<le> 1"
proof (induction rows arbitrary: s st)
  case Nil
  then show ?case by simp
next
  case (Cons r rows)
  from Cons.prems(1) obtain s1 st1 where
    p: "process_row today fn s st r = Inr (s1, st1)"
    and l: "row_loop today fn s1 st1 rows = (Inr st', s')"
    by (auto split: sum.splits)
  from Cons.IH [OF l process_row_count [OF p Cons.prems(2)]] show ?case .
qed

lemma find_filter_single:
  assumes "find Q xs = Some a" and "length (filter Q xs) \<le> 1"
  shows "filter Q xs = [a]"
proof -
  from assms(1) have "a \<in> set (filter Q xs)" by (auto simp: find_Some_iff)
  with assms(2) show ?thesis by (cases "filter Q xs") auto
qed

lemma fold_max_ge: "(m::nat) \<le> fold max xs m"
proof (induction xs arbitrary: m)
  case Nil
  then show ?case by simp
next
  case (Cons x xs)
  have "m \<le> max x m" by simp
  also have "\<dots> \<le> fold max xs (max x m)" by (rule Cons.IH)
  finally show ?case by simp
qed

lemma fold_max_mem: "x \<in> set xs \<Longrightarrow> (x::nat) \<le> fold max xs m"
proof (induction xs arbitrary: m)
  case Nil
  then show ?case by simp
next
  case (Cons y ys)
  show ?case
  proof (cases "x = y")
    case True
    have "x \<le> max y m" using True by simp
    also have "\<dots> \<le> fold max ys (max y m)" by (rule fold_max_ge)
    finally show ?thesis by simp
  next
    case False
    then have "x \<in> set ys" using Cons.prems by simp
    from Cons.IH [OF this] show ?thesis by simp
  qed
qed

lemma next_id_gt: "x \<in> set ids \<Longrightarrow> x < next_id ids"
  using fold_max_mem [of x ids 0] by (simp add: next_id_def)

lemma process_row_new_id:
  assumes "process_row today fn s st r = Inr (s', st')"
  shows "store s' = store s
         \<or> (\<exists>a. applicants (store s') = applicants (store s) @ [a]
                \<and> (\<forall>b\<in>set (applicants (store s)). a_id b < a_id a))"
proof -
  from process_row_cases [OF assms] show ?thesis
  proof
    assume "store s' = store s \<and> new_applicants st' = new_applicants st"
    then show ?thesis by simp
  next
    assume "\<exists>s1 a. add_applicant_commit s (clean_text (NAME_COL r)) (clean_phone (PHONE_COL r))
                    (clean_text (LABOR_ID_COL r)) = Inr (s1, a)
               \<and> store s' = store s1 \<and> new_applicants st' = new_applicants st + 1"
    then obtain s1 a where
      ac: "add_applicant_commit s (clean_text (NAME_COL r)) (clean_phone (PHONE_COL r))
                    (clean_text (LABOR_ID_COL r)) = Inr (s1, a)"
      and s': "store s' = store s1" by blast
    have "a_id a = next_id (map a_id (applicants (store s)))"
      using add_applicant_commit_Inr(2) [OF ac] by simp
    then have "\<forall>b\<in>set (applicants (store s)). a_id b < a_id a"
      by (auto intro: next_id_gt)
    then show ?thesis using add_applicant_commit_Inr(1) [OF ac] s' by auto
  qed
qed

lemma new_ids_unique_snoc:
  assumes "new_ids_unique old xs" and "\<forall>b\<in>set xs. a_id b < a_id a"
  shows "new_ids_unique old (xs @ [a])"
  using assms unfolding new_ids_unique_def by fastforce

lemma row_loop_new_ids:
  "row_loop today fn s st rows = (Inr st', s') \<Longrightarrow>
   new_ids_unique old (applicants (store s)) \<Longrightarrow>
   new_ids_unique old (applicants (store s'))"
proof (induction rows arbitrary: s st)
  case Nil
  then show ?case by simp
next
  case (Cons r rows)
  from Cons.prems(1) obtain s1 st1 where
    p: "process_row today fn s st r = Inr (s1, st1)"
    and l: "row_loop today fn s1 st1 rows = (Inr st', s')"
    by (auto split: sum.splits)
  have "new_ids_unique old (applicants (store s1))"
    using process_row_new_id [OF p] Cons.prems(2) by (auto intro: new_ids_unique_snoc)
  from Cons.IH [OF l this] show ?case .
qed

text \<open>
  C4, as the code has it. Take a batch that is processed without error and two of its
  rows, the row \<open>i\<close> before the row \<open>j\<close>, whose cleaned phones are the same non-empty value
  \<open>P\<close>, which no applicant stored before the batch has. Let \<open>f\<close> be the first row of the
  batch with the phone \<open>P\<close>. If the cleaned labor id of row \<open>f\<close> is empty or is the labor id
  of no applicant stored when row \<open>f\<close> is reached (so that the lookup by labor id does not
  attach the row to another applicant), then after the batch exactly one applicant has the
  phone \<open>P\<close>, it is new, its primary key is its own, and the applications appended for both
  rows reference it. (The batch appends one application per row, in the order of the rows.)
\<close>

theorem same_phone_rows_share_applicant:
  assumes up: "upload_excel today fn db rows = (Inr st, db')"
    and ij: "i < j" "j < length rows"
    and pi: "clean_phone (PHONE_COL (rows ! i)) = P"
    and pj: "clean_phone (PHONE_COL (rows ! j)) = P"
    and P: "P \<noteq> []"
    and new: "\<forall>a\<in>set (applicants db). phone a \<noteq> P"
    and first: "f \<le> i" "clean_phone (PHONE_COL (rows ! f)) = P"
      "\<forall>m<f. clean_phone (PHONE_COL (rows ! m)) \<noteq> P"
    and reach: "row_loop today fn \<lparr>store = db, pending = []\<rparr> stats0 (take f rows)
                  = (Inr st1, s1)"
    and lab: "clean_text (LABOR_ID_COL (rows ! f)) = []
              \<or> (\<forall>a\<in>set (applicants (store s1)).
                    labor_id a \<noteq> clean_text (LABOR_ID_COL (rows ! f)))"
  shows "\<exists>a. filter (\<lambda>x. phone x = P) (applicants db') = [a]
           \<and> a \<notin> set (applicants db)
           \<and> (\<forall>b\<in>set (applicants db'). a_id b = a_id a \<longrightarrow> b = a)
           \<and> length (applications db') = length (applications db) + length rows
           \<and> applicant_id (applications db' ! (length (applications db) + i)) = a_id a
           \<and> applicant_id (applications db' ! (length (applications db) + j)) = a_id a"
proof -
  define s0 where "s0 = \<lparr>store = db, pending = []\<rparr>"
  from upload_success [OF up] obtain s sc where
    l: "row_loop today fn s0 stats0 rows = (Inr st, s)"
    and cm: "commit s = Inr sc" and db': "db' = store sc"
    unfolding s0_def by blast
  have f: "f < length rows" using first(1) ij by simp
  have split: "rows = take f rows @ rows ! f # drop (Suc f) rows"
    using f by (simp add: id_take_nth_drop)
  have q0: "query_phone s0 P = None"
    using new by (auto simp: query_phone_def s0_def find_None_iff)
  have nop: "\<forall>r\<in>set (take f rows). clean_phone (PHONE_COL r) \<noteq> P"
  proof
    fix r
    assume "r \<in> set (take f rows)"
    then obtain m where "m < f" "r = rows ! m"
      using f by (auto simp: in_set_conv_nth)
    then show "clean_phone (PHONE_COL r) \<noteq> P" using first(3) by simp
  qed
  have l1: "row_loop today fn s0 stats0 (take f rows) = (Inr st1, s1)"
    using reach by (simp add: s0_def)
  have q1: "query_phone s1 P = None" by (rule rows_without_phone [OF q0 nop l1])
  from row_loop_refs [OF l1] obtain ids1 where
    ids1: "app_refs s1 = app_refs s0 @ ids1" "length ids1 = f" using f by auto
  have l2: "row_loop today fn s1 st1 (rows ! f # drop (Suc f) rows) = (Inr st, s)"
    using l l1 by (subst (asm) split) (simp add: row_loop_append)
  then obtain s2 st2 where
    p: "process_row today fn s1 st1 (rows ! f) = Inr (s2, st2)"
    and l3: "row_loop today fn s2 st2 (drop (Suc f) rows) = (Inr st, s)"
    by (auto split: sum.splits)
  from first_row_creates [OF q1 P first(2) lab p] obtain a where
    q2: "query_phone s2 P = Some a" and r2: "app_refs s2 = app_refs s1 @ [a_id a]" by blast
  from row_after_creation [OF q2 P l3] obtain ids3 where
    q: "query_phone s P = Some a" and r3: "app_refs s = app_refs s2 @ ids3"
    and len3: "length ids3 = length (drop (Suc f) rows)"
    and same: "\<forall>k<length (drop (Suc f) rows).
        clean_phone (PHONE_COL (drop (Suc f) rows ! k)) = P \<longrightarrow> ids3 ! k = a_id a"
    by blast
  define ids where "ids = ids1 @ a_id a # ids3"
  have refs: "app_refs s = app_refs s0 @ ids" using ids1 r2 r3 by (simp add: ids_def)
  have len: "length ids = length rows" using ids1(2) len3 f by (simp add: ids_def)
  have at: "ids ! k = a_id a"
    if k: "f \<le> k" "k < length rows" "clean_phone (PHONE_COL (rows ! k)) = P" for k
  proof (cases "k = f")
    case True
    then show ?thesis using ids1(2) by (simp add: ids_def nth_append)
  next
    case False
    then obtain d where d: "k = Suc f + d" using k(1) by (metis Suc_leI le_neq_implies_less le_Suc_ex)
    then have "d < length (drop (Suc f) rows)" using k(2) by simp
    moreover have "drop (Suc f) rows ! d = rows ! k" using d k(2) by simp
    ultimately have "ids3 ! d = a_id a" using same k(3) by simp
    then show ?thesis using ids1(2) d by (simp add: ids_def nth_append)
  qed
  have c0: "length (filter (\<lambda>x. phone x = P) (applicants (store s0))) \<le> 1"
    using new by (simp add: s0_def filter_empty_conv [THEN iffD2])
  have one: "filter (\<lambda>x. phone x = P) (applicants db') = [a]"
    using find_filter_single [OF q [unfolded query_phone_def] row_loop_count [OF l c0]]
    by (simp add: db' commit_Inr(1) [OF cm])
  then have ain: "a \<in> set (filter (\<lambda>x. phone x = P) (applicants db'))" by simp
  then have "phone a = P" by simp
  then have fresh: "a \<notin> set (applicants db)" using new by auto
  have m: "map applicant_id (applications db') = map applicant_id (applications db) @ ids"
    using refs app_refs_commit [OF cm] commit_Inr(2) [OF cm]
    by (simp add: db' app_refs_def s0_def)
  then have "length (map applicant_id (applications db'))
      = length (map applicant_id (applications db) @ ids)" by simp
  then have tot: "length (applications db') = length (applications db) + length rows"
    using len by simp
  have nth: "applicant_id (applications db' ! (length (applications db) + k)) = ids ! k"
    if k: "k < length rows" for k
  proof -
    have "applicant_id (applications db' ! (length (applications db) + k))
        = map applicant_id (applications db') ! (length (applications db) + k)"
      using tot k by simp
    also have "\<dots> = ids ! k" unfolding m by (simp add: nth_append)
    finally show ?thesis .
  qed
  have i: "i < length rows" using ij by simp
  have "applicant_id (applications db' ! (length (applications db) + i)) = a_id a"
    using nth [OF i] at [OF first(1) i pi] by simp
  moreover have "applicant_id (applications db' ! (length (applications db) + j)) = a_id a"
    using nth [OF ij(2)] at [OF _ ij(2) pj] first(1) ij(1) by simp
  moreover have "\<forall>b\<in>set (applicants db'). a_id b = a_id a \<longrightarrow> b = a"
  proof -
    have "new_ids_unique (applicants db) (applicants (store s0))"
      by (simp add: new_ids_unique_def s0_def)
    from row_loop_new_ids [OF l this] have "new_ids_unique (applicants db) (applicants db')"
      by (simp add: db' commit_Inr(1) [OF cm])
    moreover have "a \<in> set (applicants db')" using ain by simp
    ultimately show ?thesis using fresh unfolding new_ids_unique_def by blast
  qed
  ultimately show ?thesis using one fresh tot by blast
qed

theorem same_phone_rows_share_applicant_witness:
  "\<exists>a. filter (\<lambda>x. phone x = ''+251911223344'') (applicants ex_one_labor9) = [a]
           \<and> a \<notin> set (applicants ex_empty)
           \<and> (\<forall>b\<in>set (applicants ex_one_labor9). a_id b = a_id a \<longrightarrow> b = a)
           \<and> length (applications ex_one_labor9)
               = length (applications ex_empty) + length [ex_row_labor9, ex_row_labor9]
           \<and> applicant_id (applications ex_one_labor9 ! (length (applications ex_empty) + 0))
               = a_id a
           \<and> applicant_id (applications ex_one_labor9 ! (length (applications ex_empty) + 1))
               = a_id a"
proof -
  have up: "upload_excel (2024, 3, 1) ''f.xlsx'' ex_empty [ex_row_labor9, ex_row_labor9]
     = (Inr \<lparr>new_applicants = 1, existing_applicants = 1, applications_added = 2\<rparr>,
        ex_one_labor9)"
    by code_simp
  have reach: "row_loop (2024, 3, 1) ''f.xlsx'' \<lparr>store = ex_empty, pending = []\<rparr> stats0
      (take 0 [ex_row_labor9, ex_row_labor9]) = (Inr stats0, \<lparr>store = ex_empty, pending = []\<rparr>)"
    by simp
  have new: "\<forall>a\<in>set (applicants ex_empty). phone a \<noteq> ''+251911223344''"
    by (simp add: ex_empty_def)
  have lab: "clean_text (LABOR_ID_COL ([ex_row_labor9, ex_row_labor9] ! 0)) = []
      \<or> (\<forall>a\<in>set (applicants (store \<lparr>store = ex_empty, pending = []\<rparr>)).
            labor_id a \<noteq> clean_text (LABOR_ID_COL ([ex_row_labor9, ex_row_labor9] ! 0)))"
    by (simp add: ex_empty_def)
  show ?thesis
    using same_phone_rows_share_applicant [OF up, of 0 1 "''+251911223344''" 0, OF _ _ _ _ _ new _ _ _ reach lab]
    by (simp add: ex_phones)
qed

text \<open>
  The claim as it is written fails in two ways. A row whose phone matches nobody is
  resolved by its labor id when that matches a stored applicant: then the two rows with the
  same phone reference different applicants. And a batch that fails on an earlier row
  creates no applicant for the phone at all.
\<close>

theorem same_phone_rows_counterexample:
  "clean_phone (PHONE_COL ex_row_labor) = ''+251922334455''
   \<and> clean_phone (PHONE_COL ex_row_nolabor) = ''+251922334455''
   \<and> map phone (applicants (store ex_session)) = [''+251911223344'']
   \<and> fst (upload_excel (2024, 3, 1) ''f.xlsx'' (store ex_session)
            [ex_row_labor, ex_row_nolabor])
       = Inr \<lparr>new_applicants = 1, existing_applicants = 1, applications_added = 2\<rparr>
   \<and> map applicant_id (applications (snd (upload_excel (2024, 3, 1) ''f.xlsx''
            (store ex_session) [ex_row_labor, ex_row_nolabor]))) = [1, 2]
   \<and> fst (upload_excel (2024, 3, 1) ''f.xlsx'' (store ex_session_nophone)
            [ex_row_nophone, ex_row_nolabor, ex_row_nolabor])
       = Inl (HTTPException 500 (Database_error IntegrityError))
   \<and> map phone (applicants (snd (upload_excel (2024, 3, 1) ''f.xlsx''
            (store ex_session_nophone) [ex_row_nophone, ex_row_nolabor, ex_row_nolabor]))) = [[]]"
  by code_simp

section \<open>Search: properties\<close>

lemma ex_search_all:
  "search_results ex_two ''driver'' None None False
     = Inr [(ex_app_feb, ex_abebe), (ex_app_jan, ex_abebe)]"
  by code_simp

lemma ex_search_unique:
  "search_results ex_two ''driver'' None None True = Inr [(ex_app_feb, ex_abebe)]"
  by code_simp

lemma ex_search_range:
  "search_results ex_two ''driver'' (Some ''2024-01-10'') (Some ''2024-02-05'') False
     = Inr [(ex_app_feb, ex_abebe), (ex_app_jan, ex_abebe)]"
  by code_simp

lemma ex_search_from:
  "search_results ex_two ''driver'' (Some ''2024-01-10'') None True
     = Inr [(ex_app_feb, ex_abebe)]"
  by code_simp

lemma ex_bounds:
  "parse_bound (Some ''2024-01-10'') = Inr (Some (2024, 1, 10))"
  "parse_bound (Some ''2024-02-05'') = Inr (Some (2024, 2, 5))"
  "parse_bound None = Inr None"
  by code_simp+

lemma ex_matches:
  "(ex_app_jan, ex_abebe) \<in> set (join_applicant ex_two)"
  "contains (position (fst (ex_app_jan, ex_abebe))) (strip (lower ''driver''))"
  "application_date (fst (ex_app_jan, ex_abebe)) = (2024, 1, 10)"
  by code_simp+

lemma order_by_date_desc_set: "set (order_by_date_desc rows) = set rows"
  by (simp add: order_by_date_desc_def)

lemma order_by_date_desc_sorted:
  "sorted_wrt (\<lambda>x y. application_date (fst y) \<le> application_date (fst x))
     (order_by_date_desc rows)"
proof -
  have "sorted (map (\<lambda>r. application_date (fst r)) (sort_key (\<lambda>r. application_date (fst r)) rows))"
    by (rule sorted_sort_key)
  then have "sorted_wrt (\<lambda>x y. application_date (fst x) \<le> application_date (fst y))
      (sort_key (\<lambda>r. application_date (fst r)) rows)"
    by (simp add: sorted_map)
  then show ?thesis by (simp add: order_by_date_desc_def sorted_wrt_rev)
qed

lemma unique_loop_subset: "set (unique_loop seen rs) \<subseteq> set rs"
  by (induction seen rs rule: unique_loop.induct) auto

lemma unique_loop_unseen:
  "r \<in> set (unique_loop seen rs) \<Longrightarrow> applicant_key (snd r) \<notin> seen"
  by (induction seen rs rule: unique_loop.induct) (auto split: if_splits)

lemma unique_loop_distinct:
  "distinct (map (\<lambda>r. applicant_key (snd r)) (unique_loop seen rs))"
  by (induction seen rs rule: unique_loop.induct) (auto dest: unique_loop_unseen)

lemma unique_loop_latest:
  "sorted_wrt (\<lambda>x y. application_date (fst y) \<le> application_date (fst x)) rs \<Longrightarrow>
   r \<in> set (unique_loop seen rs) \<Longrightarrow> m \<in> set rs \<Longrightarrow>
   applicant_key (snd m) = applicant_key (snd r) \<Longrightarrow>
   application_date (fst m) \<le> application_date (fst r)"
proof (induction seen rs rule: unique_loop.induct)
  case (1 seen)
  then show ?case by simp
next
  case (2 seen app a rest)
  from "2.prems"(1) have
    hd: "\<forall>y\<in>set rest. application_date (fst y) \<le> application_date app"
    and srt: "sorted_wrt (\<lambda>x y. application_date (fst y) \<le> application_date (fst x)) rest"
    by auto
  show ?case
  proof (cases "applicant_key a \<in> seen")
    case True
    then have r: "r \<in> set (unique_loop seen rest)" using "2.prems"(2) by simp
    then have "applicant_key (snd r) \<notin> seen" by (rule unique_loop_unseen)
    then have "m \<noteq> (app, a)" using True "2.prems"(4) by auto
    then have "m \<in> set rest" using "2.prems"(3) by simp
    from "2.IH"(2) [OF _ srt r this "2.prems"(4)] True show ?thesis by simp
  next
    case False
    show ?thesis
    proof (cases "r = (app, a)")
      case True
      then show ?thesis using "2.prems"(3) hd by auto
    next
      case ne: False
      then have r: "r \<in> set (unique_loop (insert (applicant_key a) seen) rest)"
        using "2.prems"(2) False by simp
      then have "applicant_key (snd r) \<notin> insert (applicant_key a) seen"
        by (rule unique_loop_unseen)
      then have "m \<noteq> (app, a)" using "2.prems"(4) by auto
      then have "m \<in> set rest" using "2.prems"(3) by simp
      from "2.IH"(1) [OF _ srt r this "2.prems"(4)] False show ?thesis by simp
    qed
  qed
qed

lemma search_results_unique:
  assumes "search_results db q sd ed False = Inr matches"
  shows "search_results db q sd ed True = Inr (unique_loop {} matches)
       \<and> sorted_wrt (\<lambda>x y. application_date (fst y) \<le> application_date (fst x)) matches"
  using assms
  by (auto simp: search_results_def Let_def order_by_date_desc_sorted split: sum.splits)

text \<open>
  C7. A search with \<open>unique_only\<close> never returns two results whose applicants have the same
  key (phone, else labor id, else full name), every result is one of the matching
  applications, and its date is the latest among the matching applications of the
  applicants with that key, so among those of its own applicant.
\<close>

theorem unique_only_keeps_latest_per_key:
  assumes u: "search_results db q sd ed True = Inr results"
    and m: "search_results db q sd ed False = Inr matches"
  shows "distinct (map (\<lambda>r. applicant_key (snd r)) results)
       \<and> set results \<subseteq> set matches
       \<and> (\<forall>r\<in>set results. \<forall>m\<in>set matches.
            applicant_key (snd m) = applicant_key (snd r) \<longrightarrow>
            application_date (fst m) \<le> application_date (fst r))"
proof -
  from search_results_unique [OF m] u have
    r: "results = unique_loop {} matches"
    and s: "sorted_wrt (\<lambda>x y. application_date (fst y) \<le> application_date (fst x)) matches"
    by auto
  show ?thesis unfolding r
    using unique_loop_distinct unique_loop_subset unique_loop_latest [OF s] by blast
qed

theorem unique_only_keeps_latest_per_key_witness:
  "distinct (map (\<lambda>r. applicant_key (snd r)) [(ex_app_feb, ex_abebe)])
   \<and> set [(ex_app_feb, ex_abebe)] \<subseteq> set [(ex_app_feb, ex_abebe), (ex_app_jan, ex_abebe)]
   \<and> application_date (fst (ex_app_jan, ex_abebe)) \<le> application_date (fst (ex_app_feb, ex_abebe))"
  using unique_only_keeps_latest_per_key [OF ex_search_unique ex_search_all] by simp

lemma unique_loop_complete:
  "r \<in> set rs \<Longrightarrow>
     applicant_key (snd r) \<in> seen
     \<or> (\<exists>r'\<in>set (unique_loop seen rs). applicant_key (snd r') = applicant_key (snd r))"
  by (induction seen rs rule: unique_loop.induct) (auto split: if_splits)

lemma search_results_query:
  assumes "search_results db q sd ed u = Inr results"
    and "parse_bound sd = Inr lo" and "parse_bound ed = Inr hi"
  shows "\<exists>matches. search_results db q sd ed False = Inr matches
      \<and> results = (if u then unique_loop {} matches else matches)
      \<and> sorted_wrt (\<lambda>x y. application_date (fst y) \<le> application_date (fst x)) matches
      \<and> set matches = {r \<in> set (join_applicant db).
            contains (position (fst r)) (strip (lower q))
            \<and> (case lo of None \<Rightarrow> True | Some s \<Rightarrow> s \<le> application_date (fst r))
            \<and> (case hi of None \<Rightarrow> True | Some e \<Rightarrow> application_date (fst r) \<le> e)}"
  using assms
  by (auto simp: search_results_def Let_def order_by_date_desc_set order_by_date_desc_sorted
      split: option.splits)

text \<open>
  C9, as the code has it. The date filter is inclusive at both ends: every result is a
  joined application that matches the position and whose date \<open>d\<close> satisfies
  \<open>start \<le> d\<close> and \<open>d \<le> end\<close> for the bounds that are given, and every such application,
  one dated exactly on the start or on the end date included, is in the result list of a
  search without \<open>unique_only\<close>; with \<open>unique_only\<close> it is there or stands behind a result
  with the same key and no earlier date.
\<close>

theorem date_range_filter_inclusive:
  assumes "search_results db q sd ed u = Inr results"
    and "parse_bound sd = Inr lo" and "parse_bound ed = Inr hi"
  shows "(\<forall>r\<in>set results.
            r \<in> set (join_applicant db) \<and> contains (position (fst r)) (strip (lower q))
            \<and> (case lo of None \<Rightarrow> True | Some s \<Rightarrow> s \<le> application_date (fst r))
            \<and> (case hi of None \<Rightarrow> True | Some e \<Rightarrow> application_date (fst r) \<le> e))
       \<and> (\<forall>r\<in>set (join_applicant db).
            contains (position (fst r)) (strip (lower q))
            \<and> (case lo of None \<Rightarrow> True | Some s \<Rightarrow> s \<le> application_date (fst r))
            \<and> (case hi of None \<Rightarrow> True | Some e \<Rightarrow> application_date (fst r) \<le> e)
            \<longrightarrow> (if u then \<exists>r'\<in>set results.
                          applicant_key (snd r') = applicant_key (snd r)
                          \<and> application_date (fst r) \<le> application_date (fst r')
                  else r \<in> set results))"
proof -
  from search_results_query [OF assms] obtain matches where
    r: "results = (if u then unique_loop {} matches else matches)"
    and s: "sorted_wrt (\<lambda>x y. application_date (fst y) \<le> application_date (fst x)) matches"
    and m: "set matches = {r \<in> set (join_applicant db).
            contains (position (fst r)) (strip (lower q))
            \<and> (case lo of None \<Rightarrow> True | Some s \<Rightarrow> s \<le> application_date (fst r))
            \<and> (case hi of None \<Rightarrow> True | Some e \<Rightarrow> application_date (fst r) \<le> e)}"
    by blast
  have sub: "set results \<subseteq> set matches" using unique_loop_subset [of "{}" matches] by (simp add: r)
  have rep: "\<exists>r'\<in>set (unique_loop {} matches).
        applicant_key (snd r') = applicant_key (snd x)
        \<and> application_date (fst x) \<le> application_date (fst r')" if x: "x \<in> set matches" for x
  proof -
    from unique_loop_complete [OF x, of "{}"] obtain r' where
      r': "r' \<in> set (unique_loop {} matches)" "applicant_key (snd r') = applicant_key (snd x)"
      by auto
    from unique_loop_latest [OF s r'(1) x] r'(2)
    have "application_date (fst x) \<le> application_date (fst r')" by simp
    with r' show ?thesis by blast
  qed
  have A: "\<forall>r\<in>set results.
            r \<in> set (join_applicant db) \<and> contains (position (fst r)) (strip (lower q))
            \<and> (case lo of None \<Rightarrow> True | Some s \<Rightarrow> s \<le> application_date (fst r))
            \<and> (case hi of None \<Rightarrow> True | Some e \<Rightarrow> application_date (fst r) \<le> e)"
  proof
    fix x assume "x \<in> set results"
    then have "x \<in> set matches" using sub by blast
    then show "x \<in> set (join_applicant db) \<and> contains (position (fst x)) (strip (lower q))
            \<and> (case lo of None \<Rightarrow> True | Some s \<Rightarrow> s \<le> application_date (fst x))
            \<and> (case hi of None \<Rightarrow> True | Some e \<Rightarrow> application_date (fst x) \<le> e)"
      unfolding m by simp
  qed
  have B: "\<forall>r\<in>set (join_applicant db).
            contains (position (fst r)) (strip (lower q))
            \<and> (case lo of None \<Rightarrow> True | Some s \<Rightarrow> s \<le> application_date (fst r))
            \<and> (case hi of None \<Rightarrow> True | Some e \<Rightarrow> application_date (fst r) \<le> e)
            \<longrightarrow> (if u then \<exists>r'\<in>set results.
                          applicant_key (snd r') = applicant_key (snd r)
                          \<and> application_date (fst r) \<le> application_date (fst r')
                  else r \<in> set results)"
  proof (rule ballI, rule impI)
    fix x assume "x \<in> set (join_applicant db)"
      and "contains (position (fst x)) (strip (lower q))
            \<and> (case lo of None \<Rightarrow> True | Some s \<Rightarrow> s \<le> application_date (fst x))
            \<and> (case hi of None \<Rightarrow> True | Some e \<Rightarrow> application_date (fst x) \<le> e)"
    then have x: "x \<in> set matches" unfolding m by simp
    show "if u then \<exists>r'\<in>set results.
                          applicant_key (snd r') = applicant_key (snd x)
                          \<and> application_date (fst x) \<le> application_date (fst r')
                  else x \<in> set results"
      using x rep [OF x] by (simp add: r)
  qed
  show ?thesis using A B by (rule conjI)
qed

theorem date_range_filter_inclusive_witness:
  "(ex_app_jan, ex_abebe) \<in> set [(ex_app_feb, ex_abebe), (ex_app_jan, ex_abebe)]
   \<and> (\<exists>r'\<in>set [(ex_app_feb, ex_abebe)].
         applicant_key (snd r') = applicant_key (snd (ex_app_jan, ex_abebe))
         \<and> application_date (fst (ex_app_jan, ex_abebe)) \<le> application_date (fst r'))"
proof -
  note a = date_range_filter_inclusive [OF ex_search_range ex_bounds(1) ex_bounds(2)]
  note b = date_range_filter_inclusive [OF ex_search_from ex_bounds(1) ex_bounds(3)]
  have "(ex_app_jan, ex_abebe) \<in> set [(ex_app_feb, ex_abebe), (ex_app_jan, ex_abebe)]"
    using a [THEN conjunct2, THEN bspec, OF ex_matches(1)] ex_matches(2,3) by simp
  moreover have "\<exists>r'\<in>set [(ex_app_feb, ex_abebe)].
         applicant_key (snd r') = applicant_key (snd (ex_app_jan, ex_abebe))
         \<and> application_date (fst (ex_app_jan, ex_abebe)) \<le> application_date (fst r')"
    using b [THEN conjunct2, THEN bspec, OF ex_matches(1)] ex_matches(2,3) by simp
  ultimately show ?thesis by (rule conjI)
qed

text \<open>
  The claim as it is written, for every search, fails with \<open>unique_only\<close>: the application
  dated exactly on the start date matches, and the result list does not have it, because
  a later application of the same applicant stands for both.
\<close>

theorem date_on_bound_dropped_counterexample:
  "search_results ex_two ''driver'' (Some ''2024-01-10'') None True
     = Inr [(ex_app_feb, ex_abebe)]
   \<and> parse_bound (Some ''2024-01-10'') = Inr (Some (application_date ex_app_jan))
   \<and> (ex_app_jan, ex_abebe) \<in> set (join_applicant ex_two)
   \<and> contains (position ex_app_jan) (strip (lower ''driver''))
   \<and> (ex_app_jan, ex_abebe) \<notin> set [(ex_app_feb, ex_abebe)]"
  by code_simp

text \<open>
  C8. A malformed start or end date makes \<^verbatim>\<open>datetime.strptime\<close> raise \<^verbatim>\<open>ValueError\<close>, which
  no handler of the search turns into an \<^verbatim>\<open>HTTPException\<close>: the request does not end in a
  client error with a message of its own. (The upload wraps its failures in
  \<^verbatim>\<open>HTTPException\<close>, and the search does so for an empty result.)
\<close>

theorem search_malformed_date_uncaught:
  "search_applicants db q (Some ''10/01/2024'') ed u fmt = Inl (Uncaught ValueError)
   \<and> search_applicants db q None (Some ''10/01/2024'') u fmt = Inl (Uncaught ValueError)"
proof -
  have "parse_bound (Some ''10/01/2024'') = Inl ValueError" by code_simp
  moreover have "parse_bound None = Inr None" by (simp add: parse_bound_def)
  ultimately show ?thesis by (simp add: search_applicants_def search_results_def)
qed

end
